theory Spec2Isabelle
  imports Main "HOL-Library.Word" "HOL-Library.Code_Target_Numeral"
begin

unbundle bit_operations_syntax

section \<open>Data model (tx/clause.go, tx/transaction.go)\<close>

type_synonym byte = "8 word"

text \<open>
  A value of the wire format: a byte string or a list of values. These are the two shapes
  the codec decodes an \<open>interface{}\<close> into (\<open>[]byte\<close> and \<open>[]interface{}\<close>), so the
  items of \<open>Reserved\<close> are values of this type.
\<close>

datatype item = Str "byte list" | Lst "item list"

text \<open>
  \<open>clauseBody\<close>: \<open>To\<close> is a pointer to a 20-byte array (\<open>None\<close> is the nil pointer),
  \<open>Value\<close> a \<open>*big.Int\<close> (any sign), \<open>Token\<close> a byte, \<open>Data\<close> a byte slice.
\<close>

record clauseBody =
  To :: "byte list option"
  Value :: int
  Token :: byte
  Data :: "byte list"

record Clause =
  cbody :: clauseBody

text \<open>\<open>body\<close>: the ten fields of a transaction, in the order of the struct declaration.\<close>

record body =
  ChainTag :: byte
  BlockRef :: "64 word"
  Expiration :: "32 word"
  Clauses :: "Clause list"
  GasPriceCoef :: byte
  Gas :: "64 word"
  DependsOn :: "byte list option"
  Nonce :: "64 word"
  Reserved :: "item list"
  Signature :: "byte list"

record Transaction =
  body :: body

section \<open>Identifier types (package meter)\<close>

text \<open>
  The errors of the two parsers: the two \<open>errors.New\<close> values of the parsers and the two
  errors of \<open>encoding/hex\<close>.
\<close>

datatype parse_error = InvalidPrefix | InvalidLength | InvalidByteError char | ErrLength

text \<open>\<open>encoding/hex\<close>: the value of a hex digit of either case, \<open>None\<close> for any other byte.\<close>

definition fromHexChar :: "char \<Rightarrow> byte option" where
  "fromHexChar c =
     (let n = (of_char c :: nat) in
      if 48 \<le> n \<and> n \<le> 57 then Some (of_nat (n - 48))
      else if 97 \<le> n \<and> n \<le> 102 then Some (of_nat (n - 97 + 10))
      else if 65 \<le> n \<and> n \<le> 70 then Some (of_nat (n - 65 + 10))
      else None)"

text \<open>
  \<open>hex.Decode\<close>: two characters per byte, the first offending character reported; an odd
  last character gives \<open>ErrLength\<close> when it is a digit. A Go string is a byte sequence and
  \<open>len\<close> counts bytes, as \<open>length\<close> does on \<open>string\<close>.
\<close>

fun hex_Decode :: "string \<Rightarrow> parse_error + byte list" where
  "hex_Decode [] = Inr []"
| "hex_Decode [p] =
     (case fromHexChar p of None \<Rightarrow> Inl (InvalidByteError p) | Some a \<Rightarrow> Inl ErrLength)"
| "hex_Decode (p # q # src) =
     (case fromHexChar p of
        None \<Rightarrow> Inl (InvalidByteError p)
      | Some a \<Rightarrow>
          (case fromHexChar q of
             None \<Rightarrow> Inl (InvalidByteError q)
           | Some b \<Rightarrow>
               (case hex_Decode src of
                  Inl e \<Rightarrow> Inl e
                | Inr dst \<Rightarrow> Inr ((push_bit 4 a OR b) # dst))))"

text \<open>
  \<open>strings.ToLower\<close> on ASCII letters. The parsers apply it to two bytes and compare the
  result with \<open>0x\<close>; bytes outside ASCII are never mapped to an ASCII digit or letter, so
  leaving them unchanged does not change that comparison.
\<close>

definition ToLower :: "string \<Rightarrow> string" where
  "ToLower s =
     map (\<lambda>c. let n = (of_char c :: nat) in
               if 65 \<le> n \<and> n \<le> 90 then char_of (n + 32) else c) s"

text \<open>\<open>common.AddressLength\<close>\<close>

definition AddressLength :: nat where
  "AddressLength = 20"

text \<open>
  \<open>ParseAddress\<close> returns the pair \<open>(Address, error)\<close>; \<open>None\<close> is the nil error. On
  every error the address returned is the zero value \<open>Address{}\<close>.
\<close>

definition ParseAddress :: "string \<Rightarrow> byte list \<times> parse_error option" where
  "ParseAddress s =
     (if length s = AddressLength * 2 then
        (case hex_Decode s of
           Inl err \<Rightarrow> (replicate AddressLength 0, Some err)
         | Inr addr \<Rightarrow> (addr, None))
      else if length s = AddressLength * 2 + 2 then
        (if ToLower (take 2 s) \<noteq> ''0x'' then (replicate AddressLength 0, Some InvalidPrefix)
         else
           (case hex_Decode (drop 2 s) of
              Inl err \<Rightarrow> (replicate AddressLength 0, Some err)
            | Inr addr \<Rightarrow> (addr, None)))
      else (replicate AddressLength 0, Some InvalidLength))"

text \<open>\<open>ParseBytes32\<close>, the same steps at width 32.\<close>

definition ParseBytes32 :: "string \<Rightarrow> byte list \<times> parse_error option" where
  "ParseBytes32 s =
     (if length s = 32 * 2 then
        (case hex_Decode s of
           Inl err \<Rightarrow> (replicate 32 0, Some err)
         | Inr b \<Rightarrow> (b, None))
      else if length s = 32 * 2 + 2 then
        (if ToLower (take 2 s) \<noteq> ''0x'' then (replicate 32 0, Some InvalidPrefix)
         else
           (case hex_Decode (drop 2 s) of
              Inl err \<Rightarrow> (replicate 32 0, Some err)
            | Inr b \<Rightarrow> (b, None)))
      else (replicate 32 0, Some InvalidLength))"

text \<open>The common shape of the two parsers, at a width \<open>w\<close> (used in the proofs only).\<close>

definition parse_fixed :: "nat \<Rightarrow> string \<Rightarrow> byte list \<times> parse_error option" where
  "parse_fixed w s =
     (if length s = w * 2 then
        (case hex_Decode s of
           Inl err \<Rightarrow> (replicate w 0, Some err)
         | Inr b \<Rightarrow> (b, None))
      else if length s = w * 2 + 2 then
        (if ToLower (take 2 s) \<noteq> ''0x'' then (replicate w 0, Some InvalidPrefix)
         else
           (case hex_Decode (drop 2 s) of
              Inl err \<Rightarrow> (replicate w 0, Some err)
            | Inr b \<Rightarrow> (b, None)))
      else (replicate w 0, Some InvalidLength))"

text \<open>A string of hex digits.\<close>

definition is_hex :: "string \<Rightarrow> bool" where
  "is_hex s = (\<forall>c \<in> set s. fromHexChar c \<noteq> None)"

text \<open>
  The spec's words, "the stripped length": the string without its \<open>0x\<close> prefix
  (case-insensitive), when it has one.
\<close>

definition spec_stripped :: "string \<Rightarrow> string" where
  "spec_stripped s = (if take 2 s = ''0x'' \<or> take 2 s = ''0X'' then drop 2 s else s)"

section \<open>Canonical codec (the rlp package the transaction code calls)\<close>

text \<open>
  Modelled from the spec: the canonical codec. \<open>tx\<close> encodes and decodes through
  \<open>rlp.Encode\<close>, \<open>rlp.Stream\<close> and the struct tags of the imported go-ethereum package
  \<open>rlp\<close>, whose code is not among the sources. The spec asks for a deterministic,
  self-describing, length-prefixed encoding with a null marker for absent optional fields;
  the definitions of this section are that package's wire format: a byte below \<open>0x80\<close> is
  its own encoding, a string of up to 55 bytes has the header \<open>0x80 + length\<close>, a longer
  one \<open>0xB7 + length of the length\<close> followed by the big-endian length, and a list has the
  same two headers from \<open>0xC0\<close> and \<open>0xF7\<close> before the encodings of its elements.

  The errors of the package that the model reports.
\<close>

datatype rlp_error =
    EOF | ErrUnexpectedEOF | ErrValueTooLarge | ErrElemTooLarge | ErrCanonSize | ErrCanonInt
  | ErrExpectedString | ErrExpectedList | ErrUintOverflow | ErrStringTooLong | ErrStringTooShort
  | ErrTooFewElements | ErrTooManyElements | ErrMoreThanOneValue | ErrNegativeBigInt

text \<open>The three kinds of value that a header announces.\<close>

datatype kind = Byte | String | List

text \<open>\<open>putint\<close>: an unsigned integer in big-endian bytes without leading zeros.\<close>

fun putint :: "nat \<Rightarrow> byte list" where
  "putint i = (if i = 0 then [] else putint (i div 256) @ [of_nat (i mod 256)])"

declare putint.simps [simp del]

text \<open>The value of big-endian bytes (the reader's \<open>readUint\<close>).\<close>

definition getint :: "byte list \<Rightarrow> nat" where
  "getint b = foldl (\<lambda>acc x. acc * 256 + unat x) 0 b"

text \<open>\<open>puthead\<close>: the header of a payload of \<open>len\<close> bytes.\<close>

definition puthead :: "byte \<Rightarrow> byte \<Rightarrow> nat \<Rightarrow> byte list" where
  "puthead smalltag largetag len =
     (if len < 56 then [smalltag + of_nat len]
      else let sizebytes = putint len in (largetag + of_nat (length sizebytes)) # sizebytes)"

text \<open>\<open>encodeString\<close>: a single byte up to \<open>0x7F\<close> stands for itself.\<close>

definition encodeString :: "byte list \<Rightarrow> byte list" where
  "encodeString b =
     (if length b = 1 \<and> hd b \<le> 0x7F then b else puthead 0x80 0xB7 (length b) @ b)"

text \<open>The encoding of a value.\<close>

fun encode_item :: "item \<Rightarrow> byte list" where
  "encode_item (Str b) = encodeString b"
| "encode_item (Lst xs) =
     (let payload = concat (map encode_item xs) in puthead 0xC0 0xF7 (length payload) @ payload)"

text \<open>
  Where the reader stands: inside the payload of a list, at the top of an input of known
  length (\<open>rlp.DecodeBytes\<close>), or at the top of a reader without a limit
  (\<open>rlp.Decode\<close>). A value larger than what remains is reported as
  \<open>ErrElemTooLarge\<close>, \<open>ErrValueTooLarge\<close> and, when the bytes run out,
  \<open>io.ErrUnexpectedEOF\<close>.
\<close>

datatype scope = InList | Limited | Unlimited

definition too_large :: "scope \<Rightarrow> rlp_error" where
  "too_large sc =
     (case sc of
        InList \<Rightarrow> ErrElemTooLarge
      | Limited \<Rightarrow> ErrValueTooLarge
      | Unlimited \<Rightarrow> ErrUnexpectedEOF)"

text \<open>
  The size of a long string or list: \<open>n\<close> size bytes, without a leading zero, and a
  size that needed the long form.
\<close>

definition read_size :: "scope \<Rightarrow> nat \<Rightarrow> byte list \<Rightarrow> rlp_error + (nat \<times> byte list)" where
  "read_size sc n bs =
     (if length bs < n then Inl (too_large sc)
      else let sz = take n bs in
        if 1 < n \<and> hd sz = 0 then Inl ErrCanonSize
        else if getint sz < 56 then Inl ErrCanonSize
        else Inr (getint sz, drop n bs))"

text \<open>\<open>Stream.Kind\<close> checks the announced size against what remains.\<close>

definition sized ::
  "scope \<Rightarrow> kind \<Rightarrow> nat \<Rightarrow> byte list \<Rightarrow> rlp_error + (kind \<times> nat \<times> byte list)" where
  "sized sc k len bs =
     (if sc \<noteq> Unlimited \<and> length bs < len then Inl (too_large sc) else Inr (k, len, bs))"

text \<open>\<open>Stream.readKind\<close> and the check of \<open>Stream.Kind\<close>: kind, size of the content, and the
  input from the content on. A single byte below \<open>0x80\<close> is its own content.\<close>

definition read_header :: "scope \<Rightarrow> byte list \<Rightarrow> rlp_error + (kind \<times> nat \<times> byte list)" where
  "read_header sc bs =
     (case bs of
        [] \<Rightarrow> Inl EOF
      | b # rest \<Rightarrow>
          if b < 0x80 then Inr (Byte, 1, bs)
          else if b < 0xB8 then sized sc String (unat (b - 0x80)) rest
          else if b < 0xC0 then
            (case read_size sc (unat (b - 0xB7)) rest of
               Inl e \<Rightarrow> Inl e
             | Inr (len, rest') \<Rightarrow> sized sc String len rest')
          else if b < 0xF8 then sized sc List (unat (b - 0xC0)) rest
          else
            (case read_size sc (unat (b - 0xF7)) rest of
               Inl e \<Rightarrow> Inl e
             | Inr (len, rest') \<Rightarrow> sized sc List len rest'))"

text \<open>A header and its content: the kind, the content and the input after it.\<close>

definition read_value :: "scope \<Rightarrow> byte list \<Rightarrow> rlp_error + (kind \<times> byte list \<times> byte list)" where
  "read_value sc bs =
     (case read_header sc bs of
        Inl e \<Rightarrow> Inl e
      | Inr (k, len, rest) \<Rightarrow>
          if length rest < len then Inl ErrUnexpectedEOF
          else Inr (k, take len rest, drop len rest))"

text \<open>The content step of \<open>read_value\<close>, for the proofs.\<close>

definition read_content ::
  "scope \<Rightarrow> kind \<Rightarrow> nat \<Rightarrow> byte list \<Rightarrow> rlp_error + (kind \<times> byte list \<times> byte list)" where
  "read_content sc k len bs =
     (if length bs < len then Inl (too_large sc)
      else Inr (k, take len bs, drop len bs))"

lemma sized_content:
  "(case sized sc k len bs of
      Inl e \<Rightarrow> Inl e
    | Inr (k, len, rest) \<Rightarrow>
        if length rest < len then Inl ErrUnexpectedEOF
        else Inr (k, take len rest, drop len rest)) = read_content sc k len bs"
  by (cases sc) (simp_all add: sized_def read_content_def too_large_def)

lemma read_value_unfold:
  "read_value sc bs =
     (case bs of
        [] \<Rightarrow> Inl EOF
      | b # rest \<Rightarrow>
          if b < 0x80 then Inr (Byte, [b], rest)
          else if b < 0xB8 then read_content sc String (unat (b - 0x80)) rest
          else if b < 0xC0 then
            (case read_size sc (unat (b - 0xB7)) rest of
               Inl e \<Rightarrow> Inl e
             | Inr (len, rest') \<Rightarrow> read_content sc String len rest')
          else if b < 0xF8 then read_content sc List (unat (b - 0xC0)) rest
          else
            (case read_size sc (unat (b - 0xF7)) rest of
               Inl e \<Rightarrow> Inl e
             | Inr (len, rest') \<Rightarrow> read_content sc List len rest'))"
proof (cases bs)
  case Nil
  then show ?thesis by (simp add: read_value_def read_header_def)
next
  case (Cons b rest)
  show ?thesis
    unfolding Cons read_value_def read_header_def list.case
    by (simp add: sized_content split: sum.split prod.split)
qed

lemma read_size_shorter:
  "read_size sc n bs = Inr (len, rest) \<Longrightarrow> length rest \<le> length bs"
  by (auto simp: read_size_def Let_def split: if_splits)

lemma read_content_shorter:
  "read_content sc k len bs = Inr (k', c, rest) \<Longrightarrow> length c + length rest = length bs"
  by (auto simp: read_content_def split: if_splits)

lemma read_value_shorter:
  "read_value sc bs = Inr (k, c, rest) \<Longrightarrow>
     length rest < length bs \<and> (k \<noteq> Byte \<longrightarrow> length c < length bs)"
  unfolding read_value_unfold
  by (auto split: list.splits if_splits sum.splits
      dest!: read_size_shorter read_content_shorter)

text \<open>
  All the values of a list payload. A string of one byte below \<open>0x80\<close> with a header
  is not canonical (\<open>ErrCanonSize\<close>).
\<close>

function parse_items :: "byte list \<Rightarrow> rlp_error + item list" where
  "parse_items bs =
     (if bs = [] then Inr []
      else case read_value InList bs of
        Inl e \<Rightarrow> Inl e
      | Inr (k, c, rest) \<Rightarrow>
          (case (case k of
                   Byte \<Rightarrow> Inr (Str c)
                 | String \<Rightarrow>
                     if length c = 1 \<and> hd c < 0x80 then Inl ErrCanonSize else Inr (Str c)
                 | List \<Rightarrow>
                     (case parse_items c of Inl e \<Rightarrow> Inl e | Inr xs \<Rightarrow> Inr (Lst xs))) of
             Inl e \<Rightarrow> Inl e
           | Inr x \<Rightarrow>
               (case parse_items rest of Inl e \<Rightarrow> Inl e | Inr xs \<Rightarrow> Inr (x # xs))))"
  by pat_completeness auto
termination
  by (relation "measure length") (auto dest: read_value_shorter)

declare parse_items.simps [simp del]

text \<open>The value that a header of kind \<open>k\<close> with content \<open>c\<close> stands for.\<close>

definition item_of_content :: "kind \<Rightarrow> byte list \<Rightarrow> rlp_error + item" where
  "item_of_content k c =
     (case k of
        Byte \<Rightarrow> Inr (Str c)
      | String \<Rightarrow> if length c = 1 \<and> hd c < 0x80 then Inl ErrCanonSize else Inr (Str c)
      | List \<Rightarrow> (case parse_items c of Inl e \<Rightarrow> Inl e | Inr xs \<Rightarrow> Inr (Lst xs)))"

section \<open>Derived queries\<close>

text \<open>\<open>binary.BigEndian.PutUint64\<close> into an 8-byte array.\<close>

definition PutUint64 :: "64 word \<Rightarrow> byte list" where
  "PutUint64 v =
     [ucast (drop_bit 56 v), ucast (drop_bit 48 v), ucast (drop_bit 40 v),
      ucast (drop_bit 32 v), ucast (drop_bit 24 v), ucast (drop_bit 16 v),
      ucast (drop_bit 8 v), ucast v]"

text \<open>\<open>binary.BigEndian.Uint32\<close>: the reader panics on fewer than four bytes.\<close>

definition Uint32 :: "byte list \<Rightarrow> 32 word option" where
  "Uint32 b =
     (if length b < 4 then None
      else Some (ucast (b ! 3) OR push_bit 8 (ucast (b ! 2)) OR
                 push_bit 16 (ucast (b ! 1)) OR push_bit 24 (ucast (b ! 0))))"

text \<open>\<open>Transaction.BlockRef\<close>: the packed field written out as its eight bytes.\<close>

definition Transaction_BlockRef :: "Transaction \<Rightarrow> byte list" where
  "Transaction_BlockRef t = PutUint64 (BlockRef (body t))"

text \<open>
  Modelled from the spec: \<open>BlockRef.Number\<close> (the \<open>BlockRef\<close> type and its methods are
  declared in a file of package \<open>tx\<close> that is not among the sources). The spec: the first
  4 bytes of a BlockRef are the block's big-endian height (u32).
\<close>

definition Number :: "byte list \<Rightarrow> 32 word option" where
  "Number br = Uint32 (take 4 br)"

text \<open>
  \<open>Transaction.IsExpired\<close>: all three operands are converted to \<open>uint64\<close> before the
  addition and the comparison. The block reference always has eight bytes, so \<open>Number\<close>
  returns; the \<open>None\<close> branch is the reader's panic.
\<close>

definition IsExpired :: "Transaction \<Rightarrow> 32 word \<Rightarrow> bool option" where
  "IsExpired t blockNum =
     (case Number (Transaction_BlockRef t) of
        None \<Rightarrow> None
      | Some n \<Rightarrow>
          Some ((ucast blockNum :: 64 word) >
                (ucast n :: 64 word) + (ucast (Expiration (body t)) :: 64 word)))"

text \<open>
  \<open>big.Int.Div\<close> is Euclidean division (the remainder is never negative) and panics on a
  zero divisor.
\<close>

definition big_Div :: "int \<Rightarrow> int \<Rightarrow> int option" where
  "big_Div x y =
     (if y = 0 then None
      else if 0 < y then Some (x div y)
      else Some (- (x div (- y))))"

text \<open>\<open>math.MaxUint8\<close>\<close>

definition MaxUint8 :: int where
  "MaxUint8 = 255"

text \<open>
  \<open>Transaction.GasPrice\<close>: \<open>x := coef; x.Mul(x, base); x.Div(x, 255); x.Add(x, base)\<close>
  on \<open>big.Int\<close>.
\<close>

definition GasPrice :: "Transaction \<Rightarrow> int \<Rightarrow> int option" where
  "GasPrice t baseGasPrice =
     (let x = uint (GasPriceCoef (body t));
          x = x * baseGasPrice
      in case big_Div x MaxUint8 of
           None \<Rightarrow> None
         | Some x \<Rightarrow> Some (x + baseGasPrice))"

subsection \<open>Go values to wire values\<close>

text \<open>Unsigned integers of every width (\<open>byte\<close>, \<open>uint32\<close>, \<open>uint64\<close>).\<close>

definition uint_item :: "nat \<Rightarrow> item" where
  "uint_item i = Str (putint i)"

text \<open>\<open>*big.Int\<close>: a negative value cannot be encoded.\<close>

definition bigint_item :: "int \<Rightarrow> rlp_error + item" where
  "bigint_item i = (if i < 0 then Inl ErrNegativeBigInt else Inr (Str (putint (nat i))))"

text \<open>A pointer to a byte array: the nil pointer is the empty string.\<close>

definition array_ptr_item :: "byte list option \<Rightarrow> item" where
  "array_ptr_item p = (case p of None \<Rightarrow> Str [] | Some a \<Rightarrow> Str a)"

text \<open>The struct \<open>clauseBody\<close>: the list of its four fields in declaration order.\<close>

definition clauseBody_item :: "clauseBody \<Rightarrow> rlp_error + item" where
  "clauseBody_item b =
     (case bigint_item (Value b) of
        Inl e \<Rightarrow> Inl e
      | Inr v \<Rightarrow> Inr (Lst [array_ptr_item (To b), v, uint_item (unat (Token b)), Str (Data b)]))"

text \<open>A \<open>*Clause\<close> encodes through \<open>Clause.EncodeRLP\<close>, that is as its body.\<close>

definition Clause_item :: "Clause \<Rightarrow> rlp_error + item" where
  "Clause_item c = clauseBody_item (cbody c)"

text \<open>The elements of a slice, in order; the first error stops the encoding.\<close>

fun slice_items :: "('a \<Rightarrow> rlp_error + item) \<Rightarrow> 'a list \<Rightarrow> rlp_error + item list" where
  "slice_items f [] = Inr []"
| "slice_items f (x # xs) =
     (case f x of
        Inl e \<Rightarrow> Inl e
      | Inr y \<Rightarrow> (case slice_items f xs of Inl e \<Rightarrow> Inl e | Inr ys \<Rightarrow> Inr (y # ys)))"

text \<open>The struct \<open>body\<close>: the list of its ten fields in declaration order.\<close>

definition body_item :: "body \<Rightarrow> rlp_error + item" where
  "body_item b =
     (case slice_items Clause_item (Clauses b) of
        Inl e \<Rightarrow> Inl e
      | Inr cs \<Rightarrow>
          Inr (Lst [uint_item (unat (ChainTag b)),
                    uint_item (unat (BlockRef b)),
                    uint_item (unat (Expiration b)),
                    Lst cs,
                    uint_item (unat (GasPriceCoef b)),
                    uint_item (unat (Gas b)),
                    array_ptr_item (DependsOn b),
                    uint_item (unat (Nonce b)),
                    Lst (Reserved b),
                    Str (Signature b)]))"

text \<open>\<open>rlp.Encode\<close>: nothing is written when the value cannot be encoded.\<close>

definition rlp_Encode :: "rlp_error + item \<Rightarrow> rlp_error + byte list" where
  "rlp_Encode v = (case v of Inl e \<Rightarrow> Inl e | Inr x \<Rightarrow> Inr (encode_item x))"

text \<open>\<open>Clause.EncodeRLP\<close>\<close>

definition Clause_EncodeRLP :: "Clause \<Rightarrow> rlp_error + byte list" where
  "Clause_EncodeRLP c = rlp_Encode (clauseBody_item (cbody c))"

text \<open>\<open>Transaction.EncodeRLP\<close>\<close>

definition Transaction_EncodeRLP :: "Transaction \<Rightarrow> rlp_error + byte list" where
  "Transaction_EncodeRLP t = rlp_Encode (body_item (body t))"

subsection \<open>Wire values to Go values\<close>

text \<open>
  An unsigned integer of \<open>w\<close> bytes: not a list, not longer than \<open>w\<close> bytes, no leading
  zero.
\<close>

definition decode_uint :: "nat \<Rightarrow> item \<Rightarrow> rlp_error + nat" where
  "decode_uint w x =
     (case x of
        Lst _ \<Rightarrow> Inl ErrExpectedString
      | Str b \<Rightarrow>
          if w < length b then Inl ErrUintOverflow
          else if b \<noteq> [] \<and> hd b = 0 then Inl ErrCanonInt
          else Inr (getint b))"

text \<open>\<open>*big.Int\<close>\<close>

definition decode_bigint :: "item \<Rightarrow> rlp_error + int" where
  "decode_bigint x =
     (case x of
        Lst _ \<Rightarrow> Inl ErrExpectedString
      | Str b \<Rightarrow> if b \<noteq> [] \<and> hd b = 0 then Inl ErrCanonInt else Inr (int (getint b)))"

text \<open>\<open>[]byte\<close>\<close>

definition decode_bytes :: "item \<Rightarrow> rlp_error + byte list" where
  "decode_bytes x = (case x of Lst _ \<Rightarrow> Inl ErrExpectedString | Str b \<Rightarrow> Inr b)"

text \<open>A byte array of length \<open>n\<close>.\<close>

definition decode_array :: "nat \<Rightarrow> item \<Rightarrow> rlp_error + byte list" where
  "decode_array n x =
     (case x of
        Lst _ \<Rightarrow> Inl ErrExpectedString
      | Str b \<Rightarrow>
          if n < length b then Inl ErrStringTooLong
          else if length b < n then Inl ErrStringTooShort
          else Inr b)"

text \<open>A pointer to a byte array with the tag \<open>rlp:"nil"\<close>: an empty value is the nil pointer.\<close>

definition decode_nil_array :: "nat \<Rightarrow> item \<Rightarrow> rlp_error + byte list option" where
  "decode_nil_array n x =
     (if x = Str [] \<or> x = Lst [] then Inr None
      else case decode_array n x of Inl e \<Rightarrow> Inl e | Inr a \<Rightarrow> Inr (Some a))"

text \<open>The elements of a list, in order; the first error stops the decoding.\<close>

fun decode_elems :: "(item \<Rightarrow> rlp_error + 'a) \<Rightarrow> item list \<Rightarrow> rlp_error + 'a list" where
  "decode_elems dec [] = Inr []"
| "decode_elems dec (x # xs) =
     (case dec x of
        Inl e \<Rightarrow> Inl e
      | Inr v \<Rightarrow> (case decode_elems dec xs of Inl e \<Rightarrow> Inl e | Inr vs \<Rightarrow> Inr (v # vs)))"

text \<open>A slice.\<close>

definition decode_slice :: "(item \<Rightarrow> rlp_error + 'a) \<Rightarrow> item \<Rightarrow> rlp_error + 'a list" where
  "decode_slice dec x = (case x of Str _ \<Rightarrow> Inl ErrExpectedList | Lst xs \<Rightarrow> decode_elems dec xs)"

text \<open>\<open>interface{}\<close>: a string decodes to \<open>[]byte\<close>, a list to \<open>[]interface{}\<close>.\<close>

definition decode_interface :: "item \<Rightarrow> rlp_error + item" where
  "decode_interface x = Inr x"

text \<open>
  The next field of a struct, decoded by \<open>dec\<close> and passed on with the remaining elements;
  \<open>list_end\<close> closes the struct.
\<close>

definition field ::
  "(item \<Rightarrow> rlp_error + 'a) \<Rightarrow> item list \<Rightarrow> ('a \<Rightarrow> item list \<Rightarrow> rlp_error + 'b) \<Rightarrow> rlp_error + 'b" where
  "field dec xs k =
     (case xs of
        [] \<Rightarrow> Inl ErrTooFewElements
      | x # rest \<Rightarrow> (case dec x of Inl e \<Rightarrow> Inl e | Inr v \<Rightarrow> k v rest))"

definition list_end :: "item list \<Rightarrow> 'a \<Rightarrow> rlp_error + 'a" where
  "list_end xs v = (if xs = [] then Inr v else Inl ErrTooManyElements)"

text \<open>The struct \<open>clauseBody\<close>.\<close>

definition decode_clauseBody :: "item \<Rightarrow> rlp_error + clauseBody" where
  "decode_clauseBody x =
     (case x of
        Str _ \<Rightarrow> Inl ErrExpectedList
      | Lst xs \<Rightarrow>
          field (decode_nil_array 20) xs (\<lambda>to xs.
          field decode_bigint xs (\<lambda>val xs.
          field (decode_uint 1) xs (\<lambda>token xs.
          field decode_bytes xs (\<lambda>data xs.
          list_end xs \<lparr>To = to, Value = val, Token = of_nat token, Data = data\<rparr>)))))"

text \<open>\<open>Clause.DecodeRLP\<close>: decode the body, then \<open>*c = Clause{body}\<close>.\<close>

definition Clause_DecodeRLP :: "item \<Rightarrow> rlp_error + Clause" where
  "Clause_DecodeRLP s =
     (case decode_clauseBody s of Inl err \<Rightarrow> Inl err | Inr b \<Rightarrow> Inr \<lparr>cbody = b\<rparr>)"

text \<open>The struct \<open>body\<close>.\<close>

definition decode_body :: "item \<Rightarrow> rlp_error + body" where
  "decode_body x =
     (case x of
        Str _ \<Rightarrow> Inl ErrExpectedList
      | Lst xs \<Rightarrow>
          field (decode_uint 1) xs (\<lambda>chainTag xs.
          field (decode_uint 8) xs (\<lambda>blockRef xs.
          field (decode_uint 4) xs (\<lambda>expiration xs.
          field (decode_slice Clause_DecodeRLP) xs (\<lambda>clauses xs.
          field (decode_uint 1) xs (\<lambda>gasPriceCoef xs.
          field (decode_uint 8) xs (\<lambda>gas xs.
          field (decode_nil_array 32) xs (\<lambda>dependsOn xs.
          field (decode_uint 8) xs (\<lambda>nonce xs.
          field (decode_slice decode_interface) xs (\<lambda>reserved xs.
          field decode_bytes xs (\<lambda>signature xs.
          list_end xs
            \<lparr>ChainTag = of_nat chainTag, BlockRef = of_nat blockRef,
             Expiration = of_nat expiration, Clauses = clauses,
             GasPriceCoef = of_nat gasPriceCoef, Gas = of_nat gas,
             DependsOn = dependsOn, Nonce = of_nat nonce,
             Reserved = reserved, Signature = signature\<rparr>)))))))))))"

text \<open>\<open>Stream.Kind\<close> at the top of the input: the next header, nothing consumed.\<close>

definition stream_Kind :: "scope \<Rightarrow> byte list \<Rightarrow> rlp_error + kind \<times> nat" where
  "stream_Kind sc s =
     (case read_header sc s of
        Inl e \<Rightarrow> Inl e
      | Inr (k, len, rest) \<Rightarrow> Inr (k, if k = Byte then 0 else len))"

text \<open>\<open>Stream.Decode\<close> at the top of the input: the next value, and the input after it.\<close>

definition stream_Decode ::
  "(item \<Rightarrow> rlp_error + 'a) \<Rightarrow> scope \<Rightarrow> byte list \<Rightarrow> rlp_error + 'a \<times> byte list" where
  "stream_Decode dec sc s =
     (case read_value sc s of
        Inl e \<Rightarrow> Inl e
      | Inr (k, c, rest) \<Rightarrow>
          (case item_of_content k c of
             Inl e \<Rightarrow> Inl e
           | Inr x \<Rightarrow> (case dec x of Inl e \<Rightarrow> Inl e | Inr v \<Rightarrow> Inr (v, rest))))"

text \<open>
  \<open>Transaction.DecodeRLP\<close>: \<open>s.Kind()\<close> first and its error returned, then the body,
  then \<open>*t = Transaction{body: body}\<close>.
\<close>

definition Transaction_DecodeRLP ::
  "scope \<Rightarrow> byte list \<Rightarrow> rlp_error + Transaction \<times> byte list" where
  "Transaction_DecodeRLP sc s =
     (case stream_Kind sc s of
        Inl err \<Rightarrow> Inl err
      | Inr _ \<Rightarrow>
          (case stream_Decode decode_body sc s of
             Inl err \<Rightarrow> Inl err
           | Inr (b, s') \<Rightarrow> Inr (\<lparr>body = b\<rparr>, s')))"

text \<open>\<open>rlp.DecodeBytes\<close> into a transaction: bytes after the value are an error.\<close>

definition DecodeBytes :: "byte list \<Rightarrow> rlp_error + Transaction" where
  "DecodeBytes b =
     (case Transaction_DecodeRLP Limited b of
        Inl err \<Rightarrow> Inl err
      | Inr (t, rest) \<Rightarrow> if rest \<noteq> [] then Inl ErrMoreThanOneValue else Inr t)"

text \<open>
  A valid clause: the value is not negative (the spec's invariant) and a recipient has the
  20 bytes of its array type.
\<close>

definition valid_Clause :: "Clause \<Rightarrow> bool" where
  "valid_Clause c =
     (0 \<le> Value (cbody c) \<and> (\<forall>a. To (cbody c) = Some a \<longrightarrow> length a = 20))"

text \<open>A valid transaction: valid clauses, and a dependency has the 32 bytes of its type.\<close>

definition valid_Transaction :: "Transaction \<Rightarrow> bool" where
  "valid_Transaction t =
     ((\<forall>c \<in> set (Clauses (body t)). valid_Clause c)
      \<and> (\<forall>h. DependsOn (body t) = Some h \<longrightarrow> length h = 32))"

subsection \<open>Concrete transactions\<close>

text \<open>
  Two clauses (one with a recipient, one without), no dependency, two reserved items (one
  of them a list), a 65-byte signature; \<open>tx1_bytes\<close> is its encoding.
\<close>

definition tx1 :: Transaction where
  "tx1 = \<lparr>body = \<lparr>ChainTag = 88, BlockRef = 0x0012D68700000000, Expiration = 100,
      Clauses = [\<lparr>cbody = \<lparr>To = Some (replicate 20 0xF3), Value = 2000000000000000000, Token = 0, Data = []\<rparr>\<rparr>,
                 \<lparr>cbody = \<lparr>To = None, Value = 0, Token = 1, Data = [0x60, 0x80]\<rparr>\<rparr>],
      GasPriceCoef = 128, Gas = 21000, DependsOn = None, Nonce = 1234567,
      Reserved = [Str [1], Lst [Str [], Str [0x80, 0]]], Signature = replicate 65 0xAB\<rparr>\<rparr>"

definition tx1_bytes :: "byte list" where
  "tx1_bytes =
     [248, 135, 88, 135, 18, 214, 135, 0, 0, 0, 0, 100, 232, 224, 148] @ replicate 20 0xF3 @
     [136, 27, 193, 109, 103, 78, 200, 0, 0, 128, 128, 198, 128, 128, 1, 130, 96, 128,
      129, 128, 130, 82, 8, 128, 131, 18, 214, 135, 198, 1, 196, 128, 130, 128, 0, 184, 65] @
     replicate 65 0xAB"

section \<open>Signing hash, signer and identifier\<close>

text \<open>
  The collaborators that \<open>tx\<close> calls and that are not among the sources, as parameters:
  the digest behind \<open>meter.NewBlake2b\<close> (what \<open>Sum\<close> returns for the bytes written, in
  order; 32 bytes), \<open>crypto.SigToPub\<close> (a public key or an error, from a hash and a
  signature) and \<open>crypto.PubkeyToAddress\<close>.
\<close>

record 'e crypto =
  Blake2b :: "byte list \<Rightarrow> byte list"
  SigToPub :: "byte list \<Rightarrow> byte list \<Rightarrow> 'e + byte list"
  PubkeyToAddress :: "byte list \<Rightarrow> byte list"

text \<open>The \<open>[]interface{}\<close> literal of \<open>SigningHash\<close>: nine values.\<close>

definition signing_item :: "body \<Rightarrow> rlp_error + item" where
  "signing_item b =
     (case slice_items Clause_item (Clauses b) of
        Inl e \<Rightarrow> Inl e
      | Inr cs \<Rightarrow>
          Inr (Lst [uint_item (unat (ChainTag b)),
                    uint_item (unat (BlockRef b)),
                    uint_item (unat (Expiration b)),
                    Lst cs,
                    uint_item (unat (GasPriceCoef b)),
                    uint_item (unat (Gas b)),
                    array_ptr_item (DependsOn b),
                    uint_item (unat (Nonce b)),
                    Lst (Reserved b)]))"

text \<open>
  \<open>Transaction.SigningHash\<close>: the digest of what \<open>rlp.Encode\<close> wrote; when the encoding
  fails the result is the zero value of the named return.
\<close>

definition SigningHash :: "'e crypto \<Rightarrow> Transaction \<Rightarrow> byte list" where
  "SigningHash cr t =
     (case rlp_Encode (signing_item (body t)) of
        Inl err \<Rightarrow> replicate 32 0
      | Inr bs \<Rightarrow> Blake2b cr bs)"

text \<open>
  \<open>Transaction.Signer\<close> returns the pair \<open>(signer, err)\<close>; \<open>None\<close> is the nil error.
\<close>

definition Signer :: "'e crypto \<Rightarrow> Transaction \<Rightarrow> byte list \<times> 'e option" where
  "Signer cr t =
     (if length (Signature (body t)) = 0 then (replicate 20 0, None)
      else case SigToPub cr (SigningHash cr t) (Signature (body t)) of
        Inl err \<Rightarrow> (replicate 20 0, Some err)
      | Inr pub \<Rightarrow> (PubkeyToAddress cr pub, None))"

text \<open>
  \<open>Transaction.ID\<close>: the zero value when \<open>Signer\<close> returns an error, the digest of the
  signing hash followed by the signer otherwise.
\<close>

definition ID :: "'e crypto \<Rightarrow> Transaction \<Rightarrow> byte list" where
  "ID cr t =
     (case Signer cr t of
        (signer, Some err) \<Rightarrow> replicate 32 0
      | (signer, None) \<Rightarrow> Blake2b cr (SigningHash cr t @ signer))"

text \<open>\<open>Transaction.WithSignature\<close>, on values.\<close>

definition WithSignature :: "Transaction \<Rightarrow> byte list \<Rightarrow> Transaction" where
  "WithSignature t sig = \<lparr>body = (body t)\<lparr>Signature := sig\<rparr>\<rparr>"

text \<open>
  A stand-in for the collaborators, for the concrete examples only: recovery fails on a
  signature that is not 65 bytes long, as the library's does.
\<close>

datatype toy_error = InvalidSignatureLen

definition toy_crypto :: "toy_error crypto" where
  "toy_crypto =
     \<lparr>Blake2b = (\<lambda>bs. replicate 31 0 @ [of_nat (length bs) + 1]),
      SigToPub = (\<lambda>hash sig. if length sig \<noteq> 65 then Inl InvalidSignatureLen else Inr (take 64 sig)),
      PubkeyToAddress = (\<lambda>pub. take 20 pub)\<rparr>"

text \<open>\<open>tx1\<close> without a signature, with a one-byte signature, with a signature of 65 zeros.\<close>

definition unsigned_tx :: Transaction where
  "unsigned_tx = \<lparr>body = (body tx1)\<lparr>Signature := []\<rparr>\<rparr>"

definition bad_sig_tx :: Transaction where
  "bad_sig_tx = \<lparr>body = (body tx1)\<lparr>Signature := [1]\<rparr>\<rparr>"

definition zero_signer_tx :: Transaction where
  "zero_signer_tx = \<lparr>body = (body tx1)\<lparr>Signature := replicate 65 0\<rparr>\<rparr>"

text \<open>A transaction with every field zero or empty, the base of the concrete examples.\<close>

definition zero_body :: body where
  "zero_body =
     \<lparr>ChainTag = 0, BlockRef = 0, Expiration = 0, Clauses = [], GasPriceCoef = 0, Gas = 0,
      DependsOn = None, Nonce = 0, Reserved = [], Signature = []\<rparr>"

definition expiring_tx :: "64 word \<Rightarrow> 32 word \<Rightarrow> Transaction" where
  "expiring_tx br e = \<lparr>body = zero_body\<lparr>BlockRef := br, Expiration := e\<rparr>\<rparr>"

definition priced_tx :: "byte \<Rightarrow> Transaction" where
  "priced_tx coef = \<lparr>body = zero_body\<lparr>GasPriceCoef := coef\<rparr>\<rparr>"

section \<open>Expiration\<close>

lemma Number_PutUint64:
  "Number (PutUint64 v) = Some (ucast (drop_bit 32 v))"
  unfolding Number_def Uint32_def PutUint64_def
  apply simp
  apply (rule bit_word_eqI)
  subgoal for n
    apply (cases "n < 8"; cases "n < 16"; cases "n < 24")
           apply (auto simp add: bit_simps ac_simps)
    done
  done

lemma unat_ucast_32_64: "unat (ucast (a::32 word) :: 64 word) = unat a"
proof -
  have "unat a < 2^32" using unsigned_less[of a, where ?'a=nat] by simp
  then have "unat a < 2^64" by simp
  then show ?thesis by (simp add: unsigned_ucast_eq take_bit_nat_eq_self)
qed

lemma widened_sum_exact:
  "unat ((ucast (a::32 word) :: 64 word) + ucast (b :: 32 word)) = unat a + unat b"
proof -
  have "unat a < 2^32" "unat b < 2^32"
    using unsigned_less[of a, where ?'a=nat] unsigned_less[of b, where ?'a=nat] by simp_all
  then have "unat a + unat b < 2^64" by simp
  then show ?thesis by (simp add: unat_word_ariths unat_ucast_32_64)
qed

lemma IsExpired_unat:
  "IsExpired t N =
     Some (unat (ucast (drop_bit 32 (BlockRef (body t))) :: 32 word)
             + unat (Expiration (body t)) < unat N)"
  by (simp add: IsExpired_def Transaction_BlockRef_def Number_PutUint64
      word_less_nat_alt unat_ucast_32_64 widened_sum_exact)

text \<open>
  C5. The height \<open>H\<close> that \<open>IsExpired\<close> reads is the upper 32 bits of the packed block
  reference, and for every block number \<open>N\<close> the call returns (no panic) with the value
  \<open>N > H + E\<close>, the sum taken in the naturals, so it never wraps. Whenever \<open>H + E\<close> fits
  in 32 bits \<open>IsExpired (H + E)\<close> is false, and whenever \<open>H + E + 1\<close> fits,
  \<open>IsExpired (H + E + 1)\<close> is true.
\<close>

theorem IsExpired_no_wraparound:
  fixes t :: Transaction and N :: "32 word"
  defines "H \<equiv> (ucast (drop_bit 32 (BlockRef (body t))) :: 32 word)"
  defines "E \<equiv> Expiration (body t)"
  shows "Number (Transaction_BlockRef t) = Some H
       \<and> IsExpired t N = Some (unat H + unat E < unat N)
       \<and> (unat H + unat E < 2 ^ 32 \<longrightarrow> IsExpired t (H + E) = Some False)
       \<and> (unat H + unat E + 1 < 2 ^ 32 \<longrightarrow> IsExpired t (H + E + 1) = Some True)"
proof -
  have n: "Number (Transaction_BlockRef t) = Some H"
    by (simp add: H_def Transaction_BlockRef_def Number_PutUint64)
  have e: "\<And>M. IsExpired t M = Some (unat H + unat E < unat M)"
    by (simp add: IsExpired_unat H_def E_def)
  have a: "unat H + unat E < 2 ^ 32 \<Longrightarrow> unat (H + E) = unat H + unat E"
    by (simp add: unat_word_ariths)
  have b: "unat H + unat E + 1 < 2 ^ 32 \<Longrightarrow> unat (H + E + 1) = unat H + unat E + 1"
    by (simp add: unat_word_ariths)
  show ?thesis using n e a b by simp
qed

theorem IsExpired_no_wraparound_witness:
  "IsExpired (expiring_tx 0x0000000A89ABCDEF 5) 15 = Some False
 \<and> IsExpired (expiring_tx 0x0000000A89ABCDEF 5) 16 = Some True
 \<and> IsExpired (expiring_tx 0xFFFFFFFF00000000 0xFFFFFFFF) 0xFFFFFFFF = Some False"
proof -
  let ?t = "expiring_tx 0x0000000A89ABCDEF 5"
  let ?u = "expiring_tx 0xFFFFFFFF00000000 0xFFFFFFFF"
  have h: "(ucast (drop_bit 32 (BlockRef (body ?t))) :: 32 word) = 10"
    by (simp add: expiring_tx_def zero_body_def)
  have e: "Expiration (body ?t) = 5"
    by (simp add: expiring_tx_def zero_body_def)
  have hu: "(ucast (drop_bit 32 (BlockRef (body ?u))) :: 32 word) = 0xFFFFFFFF"
    by (simp add: expiring_tx_def zero_body_def)
  have eu: "Expiration (body ?u) = 0xFFFFFFFF"
    by (simp add: expiring_tx_def zero_body_def)
  show ?thesis
    using IsExpired_no_wraparound [of ?t 15] IsExpired_no_wraparound [of ?u "0xFFFFFFFF"]
    unfolding h e hu eu by simp
qed

section \<open>Gas price\<close>

lemma GasPrice_eq:
  "GasPrice t b = Some (b + (b * uint (GasPriceCoef (body t))) div 255)"
  by (simp add: GasPrice_def big_Div_def MaxUint8_def Let_def mult.commute)

text \<open>
  C6. For every coefficient and every base price \<open>b\<close>, \<open>GasPrice\<close> returns
  \<open>b + floor (b * coef / 255)\<close> on unbounded integers: the quotient \<open>q\<close> it adds is the
  one with \<open>255 * q \<le> b * coef < 255 * (q + 1)\<close>. With base 100 the coefficient 255
  gives 200 and the coefficient 0 gives 100.
\<close>

theorem GasPrice_formula:
  "GasPrice t b = Some (b + (b * uint (GasPriceCoef (body t))) div 255)
 \<and> (\<exists>q. GasPrice t b = Some (b + q)
        \<and> 255 * q \<le> b * uint (GasPriceCoef (body t))
        \<and> b * uint (GasPriceCoef (body t)) < 255 * (q + 1))
 \<and> GasPrice (priced_tx 255) 100 = Some 200
 \<and> GasPrice (priced_tx 0) 100 = Some 100"
proof -
  let ?p = "b * uint (GasPriceCoef (body t))"
  have q: "255 * (?p div 255) \<le> ?p \<and> ?p < 255 * (?p div 255 + 1)"
    by presburger
  have x: "GasPrice (priced_tx 255) 100 = Some 200"
    by (simp add: GasPrice_eq priced_tx_def zero_body_def)
  have y: "GasPrice (priced_tx 0) 100 = Some 100"
    by (simp add: GasPrice_eq priced_tx_def zero_body_def)
  show ?thesis using q x y GasPrice_eq [of t b] by blast
qed

section \<open>Identifier parsing\<close>

lemma char_eq_nat: "(c = d) = ((of_char c :: nat) = of_char d)"
  by (simp only: of_char_eq_iff)

lemma char_of_shift: "n \<le> 90 \<Longrightarrow> (char_of (n + 32 :: nat) = d) = (n + 32 = of_char d)"
proof -
  assume "n \<le> 90"
  then have "n + 32 < 2 ^ 8" by simp
  then have "take_bit 8 (n + 32) = n + 32" by (simp only: take_bit_nat_eq_self)
  then show ?thesis by (simp only: char_of_eq_iff)
qed

lemma lower_char_0: "(let n = (of_char c :: nat) in
               if 65 \<le> n \<and> n \<le> 90 then char_of (n + 32) else c) = CHR ''0'' \<longleftrightarrow> c = CHR ''0''"
  by (auto simp add: Let_def char_of_shift)

lemma lower_char_x: "(let n = (of_char c :: nat) in
               if 65 \<le> n \<and> n \<le> 90 then char_of (n + 32) else c) = CHR ''x'' \<longleftrightarrow> c = CHR ''x'' \<or> c = CHR ''X''"
  by (auto simp add: Let_def char_of_shift) (simp_all add: char_eq_nat)

lemma ToLower_prefix:
  "length p = 2 \<Longrightarrow> (ToLower p = ''0x'') = (p = ''0x'' \<or> p = ''0X'')"
proof -
  assume "length p = 2"
  then obtain a b where p: "p = [a, b]"
    by (cases p; cases "tl p") auto
  show ?thesis unfolding p ToLower_def list.map
    using lower_char_0[of a] lower_char_x[of b] by auto
qed

lemma hex_Decode_Inr: "hex_Decode s = Inr bs \<Longrightarrow> is_hex s \<and> even (length s) \<and> 2 * length bs = length s"
  by (induction s arbitrary: bs rule: hex_Decode.induct)
     (auto simp: is_hex_def split: option.splits sum.splits)

lemma hex_Decode_Inl:
  "hex_Decode s = Inl e \<Longrightarrow> even (length s) \<Longrightarrow>
     \<exists>c \<in> set s. e = InvalidByteError c \<and> fromHexChar c = None"
  by (induction s arbitrary: e rule: hex_Decode.induct)
     (auto split: option.splits sum.splits)

lemma hex_Decode_ok: "is_hex s \<Longrightarrow> even (length s) \<Longrightarrow> \<exists>bs. hex_Decode s = Inr bs"
  using hex_Decode_Inl [of s] by (cases "hex_Decode s") (auto simp: is_hex_def)

lemma ParseAddress_fixed: "ParseAddress s = parse_fixed 20 s"
  unfolding ParseAddress_def parse_fixed_def AddressLength_def by simp

lemma ParseBytes32_fixed: "ParseBytes32 s = parse_fixed 32 s"
  by (simp add: ParseBytes32_def parse_fixed_def)

lemma parse_fixed_length:
  "length s \<noteq> 2 * w \<Longrightarrow> length s \<noteq> 2 * w + 2 \<Longrightarrow>
     parse_fixed w s = (replicate w 0, Some InvalidLength)"
  by (simp add: parse_fixed_def mult.commute)

lemma parse_fixed_prefix:
  "length s = 2 * w + 2 \<Longrightarrow> take 2 s \<noteq> ''0x'' \<Longrightarrow> take 2 s \<noteq> ''0X'' \<Longrightarrow>
     parse_fixed w s = (replicate w 0, Some InvalidPrefix)"
  using ToLower_prefix [of "take 2 s"] by (simp add: parse_fixed_def mult.commute)

lemma parse_fixed_plain:
  "length s = 2 * w \<Longrightarrow>
     parse_fixed w s =
       (case hex_Decode s of Inl err \<Rightarrow> (replicate w 0, Some err) | Inr b \<Rightarrow> (b, None))"
  by (simp add: parse_fixed_def mult.commute)

lemma parse_fixed_prefixed:
  "length d = 2 * w \<Longrightarrow> p = ''0x'' \<or> p = ''0X'' \<Longrightarrow> parse_fixed w (p @ d) = parse_fixed w d"
  using ToLower_prefix [of p] by (auto simp add: parse_fixed_def mult.commute)

lemma parse_fixed_hex_error:
  assumes "length d = 2 * w" and "\<not> is_hex d"
  shows "\<exists>c \<in> set d. parse_fixed w d = (replicate w 0, Some (InvalidByteError c))
            \<and> fromHexChar c = None"
proof (cases "hex_Decode d")
  case (Inl e)
  with assms show ?thesis
    using hex_Decode_Inl [of d e] by (auto simp add: parse_fixed_plain)
next
  case (Inr bs)
  with assms show ?thesis using hex_Decode_Inr [of d bs] by simp
qed

lemma parse_fixed_success:
  assumes "length d = 2 * w" and "is_hex d"
  shows "\<exists>b. parse_fixed w d = (b, None) \<and> length b = w"
proof -
  from assms obtain b where b: "hex_Decode d = Inr b"
    using hex_Decode_ok [of d] by auto
  with assms show ?thesis using hex_Decode_Inr [of d b] by (simp add: parse_fixed_plain)
qed

lemma parse_fixed_None_hex:
  assumes "length d = 2 * w" and "snd (parse_fixed w d) = None"
  shows "is_hex d"
proof (rule ccontr)
  assume "\<not> is_hex d"
  then obtain c where "parse_fixed w d = (replicate w 0, Some (InvalidByteError c))"
    using parse_fixed_hex_error [OF assms(1)] by blast
  with assms(2) show False by simp
qed

lemma parse_fixed_None_iff:
  "snd (parse_fixed w s) = None \<longleftrightarrow>
     (\<exists>d. is_hex d \<and> length d = 2 * w \<and> (s = d \<or> s = ''0x'' @ d \<or> s = ''0X'' @ d))"
proof
  assume ok: "snd (parse_fixed w s) = None"
  consider "length s = 2 * w" | "length s = 2 * w + 2" | "length s \<noteq> 2 * w" "length s \<noteq> 2 * w + 2"
    by blast
  then show "\<exists>d. is_hex d \<and> length d = 2 * w \<and> (s = d \<or> s = ''0x'' @ d \<or> s = ''0X'' @ d)"
  proof cases
    case 1
    with ok have "is_hex s" using parse_fixed_None_hex [of s w] by simp
    with 1 show ?thesis by blast
  next
    case 2
    have p: "take 2 s = ''0x'' \<or> take 2 s = ''0X''"
    proof (rule ccontr)
      assume "\<not> (take 2 s = ''0x'' \<or> take 2 s = ''0X'')"
      then have "parse_fixed w s = (replicate w 0, Some InvalidPrefix)"
        using 2 parse_fixed_prefix [of s w] by blast
      with ok show False by simp
    qed
    have l: "length (drop 2 s) = 2 * w" using 2 by simp
    have e: "parse_fixed w s = parse_fixed w (drop 2 s)"
      using parse_fixed_prefixed [OF l p] by simp
    have "is_hex (drop 2 s)"
      using ok e l parse_fixed_None_hex [of "drop 2 s" w] by simp
    moreover have "s = ''0x'' @ drop 2 s \<or> s = ''0X'' @ drop 2 s"
      using p append_take_drop_id [of 2 s] by metis
    ultimately show ?thesis using l by blast
  next
    case 3
    with ok show ?thesis by (simp add: parse_fixed_length)
  qed
next
  assume "\<exists>d. is_hex d \<and> length d = 2 * w \<and> (s = d \<or> s = ''0x'' @ d \<or> s = ''0X'' @ d)"
  then obtain d where d: "is_hex d" "length d = 2 * w" "s = d \<or> s = ''0x'' @ d \<or> s = ''0X'' @ d"
    by blast
  have "parse_fixed w s = parse_fixed w d"
    using d(3) parse_fixed_prefixed [OF d(2), of "''0x''"] parse_fixed_prefixed [OF d(2), of "''0X''"]
    by auto
  then show "snd (parse_fixed w s) = None"
    using parse_fixed_success [OF d(2) d(1)] by auto
qed

text \<open>
  C7 (as amended). For \<open>ParseAddress\<close> (width 20) and \<open>ParseBytes32\<close> (width 32) and
  every string \<open>s\<close>: the parser succeeds exactly when \<open>s\<close> is \<open>2 * w\<close> hex digits, alone
  or after \<open>0x\<close> or \<open>0X\<close>, and then returns \<open>w\<close> bytes; it fails with the invalid-length
  error when the length of \<open>s\<close> itself is neither \<open>2 * w\<close> nor \<open>2 * w + 2\<close>, with the
  invalid-prefix error when the length is \<open>2 * w + 2\<close> and the first two characters are
  not \<open>0x\<close> or \<open>0X\<close>, and with the hex error of a non-digit of \<open>s\<close> when the length and
  the prefix are right and some character is not a hex digit; the prefixed and unprefixed
  forms of the same \<open>2 * w\<close> characters give the same result; every failure returns the
  zero value.
\<close>

theorem Parse_outcomes:
  assumes "P = ParseAddress \<and> w = AddressLength \<or> P = ParseBytes32 \<and> w = 32"
  shows "(snd (P s) = None \<longleftrightarrow>
            (\<exists>d. is_hex d \<and> length d = 2 * w \<and> (s = d \<or> s = ''0x'' @ d \<or> s = ''0X'' @ d)))
       \<and> (snd (P s) = None \<longrightarrow> length (fst (P s)) = w)
       \<and> (snd (P s) \<noteq> None \<longrightarrow> fst (P s) = replicate w 0)
       \<and> (length s \<noteq> 2 * w \<and> length s \<noteq> 2 * w + 2 \<longrightarrow> snd (P s) = Some InvalidLength)
       \<and> (length s = 2 * w + 2 \<and> take 2 s \<noteq> ''0x'' \<and> take 2 s \<noteq> ''0X'' \<longrightarrow>
            snd (P s) = Some InvalidPrefix)
       \<and> (length s = 2 * w \<and> \<not> is_hex s \<longrightarrow>
            (\<exists>c \<in> set s. snd (P s) = Some (InvalidByteError c) \<and> fromHexChar c = None))
       \<and> (length s = 2 * w + 2 \<and> (take 2 s = ''0x'' \<or> take 2 s = ''0X'') \<and> \<not> is_hex (drop 2 s) \<longrightarrow>
            (\<exists>c \<in> set (drop 2 s). snd (P s) = Some (InvalidByteError c) \<and> fromHexChar c = None))
       \<and> (length s = 2 * w \<longrightarrow> P (''0x'' @ s) = P s \<and> P (''0X'' @ s) = P s)"
proof -
  have P: "P = parse_fixed w"
    using assms by (auto simp add: ParseAddress_fixed ParseBytes32_fixed AddressLength_def)
  have c1: "snd (P s) = None \<longleftrightarrow>
            (\<exists>d. is_hex d \<and> length d = 2 * w \<and> (s = d \<or> s = ''0x'' @ d \<or> s = ''0X'' @ d))"
    unfolding P by (rule parse_fixed_None_iff)
  have c2: "snd (P s) = None \<longrightarrow> length (fst (P s)) = w"
  proof
    assume "snd (P s) = None"
    then obtain d where d: "is_hex d" "length d = 2 * w" "s = d \<or> s = ''0x'' @ d \<or> s = ''0X'' @ d"
      using c1 by blast
    have "parse_fixed w s = parse_fixed w d"
      using d(3) parse_fixed_prefixed [OF d(2), of "''0x''"]
        parse_fixed_prefixed [OF d(2), of "''0X''"] by auto
    then show "length (fst (P s)) = w"
      unfolding P using parse_fixed_success [OF d(2) d(1)] by auto
  qed
  have c3: "snd (P s) \<noteq> None \<longrightarrow> fst (P s) = replicate w 0"
    unfolding P parse_fixed_def by (simp split: sum.splits)
  have c4: "length s \<noteq> 2 * w \<and> length s \<noteq> 2 * w + 2 \<longrightarrow> snd (P s) = Some InvalidLength"
    unfolding P by (simp add: parse_fixed_length)
  have c5: "length s = 2 * w + 2 \<and> take 2 s \<noteq> ''0x'' \<and> take 2 s \<noteq> ''0X'' \<longrightarrow>
            snd (P s) = Some InvalidPrefix"
    unfolding P by (simp add: parse_fixed_prefix)
  have c6: "length s = 2 * w \<and> \<not> is_hex s \<longrightarrow>
            (\<exists>c \<in> set s. snd (P s) = Some (InvalidByteError c) \<and> fromHexChar c = None)"
    unfolding P using parse_fixed_hex_error [of s w] by fastforce
  have c7: "length s = 2 * w + 2 \<and> (take 2 s = ''0x'' \<or> take 2 s = ''0X'') \<and> \<not> is_hex (drop 2 s) \<longrightarrow>
            (\<exists>c \<in> set (drop 2 s). snd (P s) = Some (InvalidByteError c) \<and> fromHexChar c = None)"
  proof (intro impI, elim conjE)
    assume l: "length s = 2 * w + 2" and p: "take 2 s = ''0x'' \<or> take 2 s = ''0X''"
      and h: "\<not> is_hex (drop 2 s)"
    have ld: "length (drop 2 s) = 2 * w" using l by simp
    have "parse_fixed w (take 2 s @ drop 2 s) = parse_fixed w (drop 2 s)"
      by (rule parse_fixed_prefixed [OF ld p])
    then have "P s = parse_fixed w (drop 2 s)" unfolding P by simp
    then show "\<exists>c \<in> set (drop 2 s). snd (P s) = Some (InvalidByteError c) \<and> fromHexChar c = None"
      using parse_fixed_hex_error [OF ld h] by fastforce
  qed
  have c8: "length s = 2 * w \<longrightarrow> P (''0x'' @ s) = P s \<and> P (''0X'' @ s) = P s"
    unfolding P using parse_fixed_prefixed [of s w] by blast
  show ?thesis using c1 c2 c3 c4 c5 c6 c7 c8 by blast
qed

theorem Parse_outcomes_witness:
  "ParseAddress (''0x'' @ concat (replicate 20 ''11'')) = ParseAddress (concat (replicate 20 ''11''))
 \<and> snd (ParseAddress (concat (replicate 20 ''11''))) = None
 \<and> length (fst (ParseAddress (concat (replicate 20 ''11'')))) = 20
 \<and> snd (ParseBytes32 (''0X'' @ concat (replicate 32 ''ab''))) = None
 \<and> ParseAddress (replicate 39 CHR ''1'') = (replicate 20 0, Some InvalidLength)
 \<and> ParseAddress (''0y'' @ replicate 40 CHR ''1'') = (replicate 20 0, Some InvalidPrefix)
 \<and> snd (ParseAddress (replicate 39 CHR ''1'' @ ''g'')) = Some (InvalidByteError CHR ''g'')"
proof -
  let ?d = "concat (replicate 20 ''11'')"
  let ?e = "concat (replicate 32 ''ab'')"
  have a: "ParseAddress = ParseAddress \<and> AddressLength = AddressLength
             \<or> ParseAddress = ParseBytes32 \<and> AddressLength = 32"
    by simp
  have b: "ParseBytes32 = ParseAddress \<and> 32 = AddressLength \<or> ParseBytes32 = ParseBytes32 \<and> (32::nat) = 32"
    by simp
  have hd: "is_hex ?d"
    by (simp add: is_hex_def fromHexChar_def)
  have ld: "length ?d = 2 * AddressLength"
    by code_simp
  have he: "is_hex ?e"
    by (simp add: is_hex_def fromHexChar_def)
  have le: "length ?e = 2 * 32"
    by code_simp
  have l39: "length (replicate 39 CHR ''1'') \<noteq> 2 * AddressLength
           \<and> length (replicate 39 CHR ''1'') \<noteq> 2 * AddressLength + 2"
    by (simp add: AddressLength_def)
  have py: "length (''0y'' @ replicate 40 CHR ''1'') = 2 * AddressLength + 2
          \<and> take 2 (''0y'' @ replicate 40 CHR ''1'') \<noteq> ''0x''
          \<and> take 2 (''0y'' @ replicate 40 CHR ''1'') \<noteq> ''0X''"
    by (simp add: AddressLength_def)
  have g: "length (replicate 39 CHR ''1'' @ ''g'') = 2 * AddressLength
          \<and> \<not> is_hex (replicate 39 CHR ''1'' @ ''g'')"
    by (simp add: is_hex_def fromHexChar_def AddressLength_def)
  have g': "\<And>c. c \<in> set (replicate 39 CHR ''1'' @ ''g'') \<Longrightarrow> fromHexChar c = None \<Longrightarrow> c = CHR ''g''"
    by (auto simp add: fromHexChar_def)
  have 1: "ParseAddress (''0x'' @ ?d) = ParseAddress ?d"
    using Parse_outcomes [OF a, of ?d] ld by blast
  have 2: "snd (ParseAddress ?d) = None" "length (fst (ParseAddress ?d)) = 20"
    using Parse_outcomes [OF a, of ?d] hd ld by (auto simp add: AddressLength_def)
  have 3: "snd (ParseBytes32 (''0X'' @ ?e)) = None"
    using Parse_outcomes [OF b, of "''0X'' @ ?e"] he le by blast
  have 4: "ParseAddress (replicate 39 CHR ''1'') = (replicate 20 0, Some InvalidLength)"
    using Parse_outcomes [OF a, of "replicate 39 CHR ''1''"] l39
    by (metis AddressLength_def option.distinct(1) prod.collapse)
  have 5: "ParseAddress (''0y'' @ replicate 40 CHR ''1'') = (replicate 20 0, Some InvalidPrefix)"
    using Parse_outcomes [OF a, of "''0y'' @ replicate 40 CHR ''1''"] py
    by (metis AddressLength_def option.distinct(1) prod.collapse)
  have 6: "snd (ParseAddress (replicate 39 CHR ''1'' @ ''g'')) = Some (InvalidByteError CHR ''g'')"
    using Parse_outcomes [OF a, of "replicate 39 CHR ''1'' @ ''g''"] g g' by metis
  show ?thesis using 1 2 3 4 5 6 by simp
qed

text \<open>
  C7 as stated fails: \<open>0x\<close> followed by 38 digits has the stripped length 38, which is
  wrong for an address, and \<open>ParseAddress\<close> takes the 40 characters for an unprefixed
  address and reports the hex error of the character \<open>x\<close>, not the invalid-length error.
\<close>

theorem Parse_stripped_length_counterexample:
  "length (spec_stripped (''0x'' @ replicate 38 CHR ''1'')) \<noteq> 2 * AddressLength
 \<and> ParseAddress (''0x'' @ replicate 38 CHR ''1'') =
     (replicate 20 0, Some (InvalidByteError CHR ''x''))"
  by (simp add: spec_stripped_def ParseAddress_def AddressLength_def fromHexChar_def
      numeral_eq_Suc)

section \<open>Codec: reading back what was written\<close>

subsection \<open>Big-endian integers\<close>

lemma getint_snoc: "getint (b @ [x]) = getint b * 256 + unat x"
  by (simp add: getint_def)

lemma getint_putint: "getint (putint i) = i"
proof (induction i rule: putint.induct)
  case (1 i)
  show ?case
  proof (cases "i = 0")
    case True
    then show ?thesis by (simp add: putint.simps getint_def)
  next
    case False
    have "unat (of_nat (i mod 256) :: byte) = i mod 256"
      by (simp add: unat_of_nat)
    with False 1 show ?thesis
      by (subst putint.simps) (simp add: getint_snoc)
  qed
qed

lemma putint_0: "putint 0 = []"
  by (simp add: putint.simps)

lemma putint_eq_Nil: "putint i = [] \<longleftrightarrow> i = 0"
  by (subst putint.simps) simp

lemma hd_putint: "i \<noteq> 0 \<Longrightarrow> hd (putint i) \<noteq> 0"
proof (induction i rule: putint.induct)
  case (1 i)
  show ?case
  proof (cases "i div 256 = 0")
    case True
    then have "i < 256" using div_eq_0_iff [of i 256] by simp 
    then have "putint i = [of_nat i]"
      using "1.prems" by (subst putint.simps) (simp add: putint_eq_Nil)
    moreover have "(of_nat i :: byte) \<noteq> 0"
    proof
      assume z: "(of_nat i :: byte) = 0"
      have "unat (of_nat i :: byte) = i" using \<open>i < 256\<close> by (simp add: unat_of_nat)
      with z "1.prems" show False by simp
    qed
    ultimately show ?thesis by simp
  next
    case False
    then have "hd (putint (i div 256)) \<noteq> 0" "putint (i div 256) \<noteq> []"
      using 1 by (auto simp add: putint_eq_Nil)
    then show ?thesis using "1.prems" by (subst putint.simps) simp
  qed
qed

lemma length_putint: "i < 256 ^ k \<Longrightarrow> length (putint i) \<le> k"
proof (induction i arbitrary: k rule: putint.induct)
  case (1 i)
  show ?case
  proof (cases "i = 0")
    case True
    then show ?thesis by (simp add: putint_0)
  next
    case False
    then obtain j where k: "k = Suc j" using "1.prems" by (cases k) auto
    then have "i div 256 < 256 ^ j" using "1.prems" by (simp add: less_mult_imp_div_less)
    then have "length (putint (i div 256)) \<le> j" using 1 False by blast
    then show ?thesis using False k by (subst putint.simps) simp
  qed
qed

subsection \<open>Reading a header back\<close>

lemma unat_tag: "t + n < 256 \<Longrightarrow> unat ((of_nat t :: byte) + of_nat n) = t + n"
  by (simp add: unat_word_ariths unat_of_nat)

lemma read_content_exact:
  "read_content sc k (length c) (c @ rest) = Inr (k, c, rest)"
  by (simp add: read_content_def)

lemma read_size_putint:
  assumes "56 \<le> n"
  shows "read_size sc (length (putint n)) (putint n @ rest) = Inr (n, rest)"
proof -
  have "n \<noteq> 0" using assms by simp
  then have "hd (putint n) \<noteq> 0" by (rule hd_putint)
  then show ?thesis using assms by (simp add: read_size_def getint_putint)
qed

lemma length_putint_size:
  assumes "56 \<le> n" and "n < 2 ^ 64"
  shows "1 \<le> length (putint n) \<and> length (putint n) \<le> 8"
proof -
  have "putint n \<noteq> []" using assms(1) by (simp add: putint_eq_Nil)
  moreover have "n < 256 ^ 8" using assms(2) by simp
  then have "length (putint n) \<le> 8" by (rule length_putint)
  ultimately show ?thesis by (cases "putint n") auto
qed

lemma read_header_puthead_string:
  assumes "n < 2 ^ 64"
  shows "read_header sc (puthead 0x80 0xB7 n @ q) = sized sc String n q"
proof (cases "n < 56")
  case True
  define h :: byte where "h = 0x80 + of_nat n"
  have u: "unat h = 128 + n"
    unfolding h_def using True unat_tag [of 128 n] by simp
  have c: "\<not> h < 0x80" "h < 0xB8" "unat (h - 0x80) = n"
    using u True by (simp_all add: word_less_nat_alt unat_sub word_le_nat_alt)
  have "puthead 0x80 0xB7 n = [h]"
    using True by (simp add: puthead_def h_def)
  then show ?thesis using c by (simp add: read_header_def)
next
  case False
  define k where "k = length (putint n)"
  define h :: byte where "h = 0xB7 + of_nat k"
  have k: "1 \<le> k \<and> k \<le> 8"
    unfolding k_def using False assms by (intro length_putint_size) simp_all
  have u: "unat h = 183 + k"
    unfolding h_def using k unat_tag [of 183 k] by simp
  have c: "\<not> h < 0x80" "\<not> h < 0xB8" "h < 0xC0" "unat (h - 0xB7) = k"
    using u k by (simp_all add: word_less_nat_alt unat_sub word_le_nat_alt)
  have p: "puthead 0x80 0xB7 n = h # putint n"
    using False by (simp add: puthead_def h_def k_def Let_def)
  have r: "read_size sc k (putint n @ q) = Inr (n, q)"
    unfolding k_def using False by (intro read_size_putint) simp
  show ?thesis unfolding p using c r by (simp add: read_header_def)
qed

lemma read_header_puthead_list:
  assumes "n < 2 ^ 64"
  shows "read_header sc (puthead 0xC0 0xF7 n @ q) = sized sc List n q"
proof (cases "n < 56")
  case True
  define h :: byte where "h = 0xC0 + of_nat n"
  have u: "unat h = 192 + n"
    unfolding h_def using True unat_tag [of 192 n] by simp
  have c: "\<not> h < 0x80" "\<not> h < 0xB8" "\<not> h < 0xC0" "h < 0xF8" "unat (h - 0xC0) = n"
    using u True by (simp_all add: word_less_nat_alt unat_sub word_le_nat_alt)
  have "puthead 0xC0 0xF7 n = [h]"
    using True by (simp add: puthead_def h_def)
  then show ?thesis using c by (simp add: read_header_def)
next
  case False
  define k where "k = length (putint n)"
  define h :: byte where "h = 0xF7 + of_nat k"
  have k: "1 \<le> k \<and> k \<le> 8"
    unfolding k_def using False assms by (intro length_putint_size) simp_all
  have u: "unat h = 247 + k"
    unfolding h_def using k unat_tag [of 247 k] by simp
  have c: "\<not> h < 0x80" "\<not> h < 0xB8" "\<not> h < 0xC0" "\<not> h < 0xF8" "unat (h - 0xF7) = k"
    using u k by (simp_all add: word_less_nat_alt unat_sub word_le_nat_alt)
  have p: "puthead 0xC0 0xF7 n = h # putint n"
    using False by (simp add: puthead_def h_def k_def Let_def)
  have r: "read_size sc k (putint n @ q) = Inr (n, q)"
    unfolding k_def using False by (intro read_size_putint) simp
  show ?thesis unfolding p using c r by (simp add: read_header_def)
qed

lemma read_value_puthead_string:
  "n < 2 ^ 64 \<Longrightarrow> read_value sc (puthead 0x80 0xB7 n @ q) = read_content sc String n q"
  unfolding read_value_def by (simp only: read_header_puthead_string sized_content)

lemma read_value_puthead_list:
  "n < 2 ^ 64 \<Longrightarrow> read_value sc (puthead 0xC0 0xF7 n @ q) = read_content sc List n q"
  unfolding read_value_def by (simp only: read_header_puthead_list sized_content)

lemma read_value_string:
  "length b < 2 ^ 64 \<Longrightarrow>
     read_value sc (puthead 0x80 0xB7 (length b) @ b @ rest) = Inr (String, b, rest)"
  by (simp add: read_value_puthead_string read_content_exact)

lemma read_value_list:
  "length p < 2 ^ 64 \<Longrightarrow>
     read_value sc (puthead 0xC0 0xF7 (length p) @ p @ rest) = Inr (List, p, rest)"
  by (simp add: read_value_puthead_list read_content_exact)

lemma read_value_list_truncated:
  "length p < 2 ^ 64 \<Longrightarrow> length q < length p \<Longrightarrow>
     read_value sc (puthead 0xC0 0xF7 (length p) @ q) = Inl (too_large sc)"
  by (simp add: read_value_puthead_list read_content_def)

lemma read_value_byte:
  "x \<le> 0x7F \<Longrightarrow> read_value sc (x # rest) = Inr (Byte, [x], rest)"
  by (simp add: read_value_unfold word_less_nat_alt word_le_nat_alt)

subsection \<open>Reading items back\<close>

lemma parse_items_Nil: "parse_items [] = Inr []"
  by (simp add: parse_items.simps)

lemma parse_items_step:
  assumes "read_value InList bs = Inr (k, c, rest)"
  shows "parse_items bs =
     (case item_of_content k c of
        Inl e \<Rightarrow> Inl e
      | Inr x \<Rightarrow> (case parse_items rest of Inl e \<Rightarrow> Inl e | Inr xs \<Rightarrow> Inr (x # xs)))"
proof -
  have "bs \<noteq> []" using assms by (auto simp add: read_value_unfold)
  then show ?thesis
    using assms by (subst parse_items.simps) (simp add: item_of_content_def)
qed

lemma encode_item_not_Nil: "encode_item x \<noteq> []"
  by (cases x) (auto simp add: encodeString_def puthead_def Let_def)

lemma length_elem_le_concat:
  "x \<in> set xs \<Longrightarrow> length (f x) \<le> length (concat (map f xs))"
  by (induction xs) auto

lemma length_payload_le:
  "length (concat (map encode_item xs)) \<le> length (encode_item (Lst xs))"
  by (simp add: Let_def)

lemma length_string_le: "length b \<le> length (encode_item (Str b))"
  by (simp add: encodeString_def)

lemma parse_items_concat:
  assumes "\<And>x rest. x \<in> set xs \<Longrightarrow>
     parse_items (encode_item x @ rest) =
       (case parse_items rest of Inl e \<Rightarrow> Inl e | Inr ys \<Rightarrow> Inr (x # ys))"
  shows "parse_items (concat (map encode_item xs) @ rest) =
       (case parse_items rest of Inl e \<Rightarrow> Inl e | Inr ys \<Rightarrow> Inr (xs @ ys))"
  using assms
proof (induction xs)
  case Nil
  show ?case by (simp split: sum.splits)
next
  case (Cons x xs)
  have "parse_items (concat (map encode_item xs) @ rest) =
       (case parse_items rest of Inl e \<Rightarrow> Inl e | Inr ys \<Rightarrow> Inr (xs @ ys))"
    using Cons by simp
  then show ?case using Cons.prems [of x "concat (map encode_item xs) @ rest"]
    by (simp split: sum.splits)
qed

lemma parse_items_encode_item:
  "length (encode_item x) < 2 ^ 64 \<Longrightarrow>
     parse_items (encode_item x @ rest) =
       (case parse_items rest of Inl e \<Rightarrow> Inl e | Inr ys \<Rightarrow> Inr (x # ys))"
proof (induction x arbitrary: rest)
  case (Str b)
  show ?case
  proof (cases "length b = 1 \<and> hd b \<le> 0x7F")
    case True
    then obtain x where b: "b = [x]" "x \<le> 0x7F" by (cases b) auto
    then have "read_value InList (encode_item (Str b) @ rest) = Inr (Byte, [x], rest)"
      by (simp add: encodeString_def read_value_byte)
    then show ?thesis using b
      by (simp add: parse_items_step item_of_content_def split: sum.splits)
  next
    case False
    have "length b < 2 ^ 64" using Str length_string_le [of b] by simp
    then have "read_value InList (puthead 0x80 0xB7 (length b) @ b @ rest) = Inr (String, b, rest)"
      by (rule read_value_string)
    moreover have "encode_item (Str b) = puthead 0x80 0xB7 (length b) @ b"
      using False by (auto simp add: encodeString_def)
    ultimately have rv: "read_value InList (encode_item (Str b) @ rest) = Inr (String, b, rest)"
      by simp
    have "(hd b < 0x80) = (hd b \<le> 0x7F)"
      by (auto simp add: word_less_nat_alt word_le_nat_alt)
    then have nc: "(length b = 1 \<and> hd b < 0x80) = False"
      using False by blast
    have "item_of_content String b = Inr (Str b)"
      unfolding item_of_content_def using nc by simp
    then show ?thesis using parse_items_step [OF rv] by simp
  qed
next
  case (Lst xs)
  let ?p = "concat (map encode_item xs)"
  have lp: "length ?p < 2 ^ 64" using Lst.prems length_payload_le [of xs] by simp
  have each: "\<And>x rest. x \<in> set xs \<Longrightarrow>
     parse_items (encode_item x @ rest) =
       (case parse_items rest of Inl e \<Rightarrow> Inl e | Inr ys \<Rightarrow> Inr (x # ys))"
  proof -
    fix x rest assume x: "x \<in> set xs"
    then have "length (encode_item x) \<le> length ?p" by (rule length_elem_le_concat)
    then have "length (encode_item x) < 2 ^ 64" using lp by simp
    then show "parse_items (encode_item x @ rest) =
       (case parse_items rest of Inl e \<Rightarrow> Inl e | Inr ys \<Rightarrow> Inr (x # ys))"
      using Lst.IH x by blast
  qed
  have "parse_items (?p @ []) = Inr xs"
    using parse_items_concat [of xs "[]", OF each] by (simp add: parse_items_Nil)
  then have inner: "parse_items ?p = Inr xs" by simp
  have "read_value InList (encode_item (Lst xs) @ rest) = Inr (List, ?p, rest)"
    using read_value_list [OF lp] by (simp add: Let_def)
  then show ?case using inner by (simp add: parse_items_step item_of_content_def)
qed

lemma parse_items_payload:
  assumes "length (concat (map encode_item xs)) < 2 ^ 64"
  shows "parse_items (concat (map encode_item xs)) = Inr xs"
proof -
  have each: "\<And>x rest. x \<in> set xs \<Longrightarrow>
     parse_items (encode_item x @ rest) =
       (case parse_items rest of Inl e \<Rightarrow> Inl e | Inr ys \<Rightarrow> Inr (x # ys))"
  proof -
    fix x rest assume x: "x \<in> set xs"
    then have "length (encode_item x) \<le> length (concat (map encode_item xs))"
      by (rule length_elem_le_concat)
    then have "length (encode_item x) < 2 ^ 64" using assms by simp
    then show "parse_items (encode_item x @ rest) =
       (case parse_items rest of Inl e \<Rightarrow> Inl e | Inr ys \<Rightarrow> Inr (x # ys))"
      by (rule parse_items_encode_item)
  qed
  have "parse_items (concat (map encode_item xs) @ []) = Inr xs"
    using parse_items_concat [of xs "[]", OF each] by (simp add: parse_items_Nil)
  then show ?thesis by simp
qed

lemma read_encoded_item:
  assumes "length (encode_item x) < 2 ^ 64"
  shows "\<exists>k c. read_value sc (encode_item x @ rest) = Inr (k, c, rest)
             \<and> item_of_content k c = Inr x"
proof (cases x)
  case (Str b)
  show ?thesis
  proof (cases "length b = 1 \<and> hd b \<le> 0x7F")
    case True
    then obtain y where b: "b = [y]" "y \<le> 0x7F" by (cases b) auto
    then have "read_value sc (encode_item x @ rest) = Inr (Byte, [y], rest)"
      using Str by (simp add: encodeString_def read_value_byte)
    moreover have "item_of_content Byte [y] = Inr x"
      using Str b by (simp add: item_of_content_def)
    ultimately show ?thesis by blast
  next
    case False
    have "length b < 2 ^ 64" using assms Str length_string_le [of b] by simp
    then have "read_value sc (puthead 0x80 0xB7 (length b) @ b @ rest) = Inr (String, b, rest)"
      by (rule read_value_string)
    moreover have "encode_item x = puthead 0x80 0xB7 (length b) @ b"
      using False Str by (auto simp add: encodeString_def)
    ultimately have rv: "read_value sc (encode_item x @ rest) = Inr (String, b, rest)"
      by simp
    have "(hd b < 0x80) = (hd b \<le> 0x7F)"
      by (auto simp add: word_less_nat_alt word_le_nat_alt)
    then have nc: "(length b = 1 \<and> hd b < 0x80) = False"
      using False by blast
    have "item_of_content String b = Inr x"
      unfolding item_of_content_def using nc Str by simp
    with rv show ?thesis by blast
  qed
next
  case (Lst xs)
  let ?p = "concat (map encode_item xs)"
  have lp: "length ?p < 2 ^ 64" using assms Lst length_payload_le [of xs] by simp
  have "read_value sc (encode_item x @ rest) = Inr (List, ?p, rest)"
    using read_value_list [OF lp] Lst by (simp add: Let_def)
  moreover have "item_of_content List ?p = Inr x"
    using parse_items_payload [OF lp] Lst by (simp add: item_of_content_def)
  ultimately show ?thesis by blast
qed

subsection \<open>Typed round trips\<close>

lemma decode_uint_item: "i < 256 ^ w \<Longrightarrow> decode_uint w (uint_item i) = Inr i"
proof -
  assume "i < 256 ^ w"
  then have "length (putint i) \<le> w" by (rule length_putint)
  moreover have "putint i \<noteq> [] \<Longrightarrow> hd (putint i) \<noteq> 0"
    using hd_putint [of i] by (simp add: putint_eq_Nil)
  ultimately show ?thesis
    by (auto simp add: decode_uint_def uint_item_def getint_putint)
qed

lemma unat_lt_256_pow:
  "unat (x :: 8 word) < 256 ^ 1" "unat (y :: 32 word) < 256 ^ 4" "unat (z :: 64 word) < 256 ^ 8"
  using unsigned_less [of x, where ?'a = nat] unsigned_less [of y, where ?'a = nat]
    unsigned_less [of z, where ?'a = nat] by simp_all

lemma decode_uint_word:
  "decode_uint 1 (uint_item (unat (x :: 8 word))) = Inr (unat x)"
  "decode_uint (Suc 0) (uint_item (unat (x :: 8 word))) = Inr (unat x)"
  "decode_uint 4 (uint_item (unat (y :: 32 word))) = Inr (unat y)"
  "decode_uint 8 (uint_item (unat (z :: 64 word))) = Inr (unat z)"
  using decode_uint_item [OF unat_lt_256_pow(1), of x] decode_uint_item [OF unat_lt_256_pow(2), of y]
    decode_uint_item [OF unat_lt_256_pow(3), of z] by simp_all

lemma decode_bigint_item:
  "0 \<le> v \<Longrightarrow> bigint_item v = Inr (Str (putint (nat v)))
     \<and> decode_bigint (Str (putint (nat v))) = Inr v"
  using hd_putint [of "nat v"]
  by (auto simp add: bigint_item_def decode_bigint_def getint_putint putint_eq_Nil)

lemma decode_nil_array_item:
  assumes "0 < n" and "\<forall>a. p = Some a \<longrightarrow> length a = n"
  shows "decode_nil_array n (array_ptr_item p) = Inr p"
proof (cases p)
  case None
  then show ?thesis by (simp add: decode_nil_array_def array_ptr_item_def)
next
  case (Some a)
  then have "length a = n" using assms by simp
  then have "a \<noteq> []" using assms(1) by auto
  then show ?thesis using Some \<open>length a = n\<close>
    by (simp add: decode_nil_array_def array_ptr_item_def decode_array_def)
qed

lemma Clause_round_trip:
  assumes "valid_Clause c"
  shows "\<exists>x. Clause_item c = Inr x \<and> Clause_DecodeRLP x = Inr c"
proof -
  let ?b = "cbody c"
  have v: "bigint_item (Value ?b) = Inr (Str (putint (nat (Value ?b))))"
    and dv: "decode_bigint (Str (putint (nat (Value ?b)))) = Inr (Value ?b)"
    using assms decode_bigint_item [of "Value ?b"] by (simp_all add: valid_Clause_def)
  have dt: "decode_nil_array 20 (array_ptr_item (To ?b)) = Inr (To ?b)"
    using assms by (intro decode_nil_array_item) (simp_all add: valid_Clause_def)
  let ?x = "Lst [array_ptr_item (To ?b), Str (putint (nat (Value ?b))),
                 uint_item (unat (Token ?b)), Str (Data ?b)]"
  have "Clause_item c = Inr ?x"
    by (simp add: Clause_item_def clauseBody_item_def v)
  moreover have "decode_clauseBody ?x = Inr ?b"
    by (simp add: decode_clauseBody_def field_def list_end_def dt dv decode_uint_word
        decode_bytes_def)
  then have "Clause_DecodeRLP ?x = Inr c"
    by (simp add: Clause_DecodeRLP_def)
  ultimately show ?thesis by blast
qed

lemma Clauses_round_trip:
  "\<forall>c \<in> set cs. valid_Clause c \<Longrightarrow>
     \<exists>xs. slice_items Clause_item cs = Inr xs \<and> decode_elems Clause_DecodeRLP xs = Inr cs"
proof (induction cs)
  case Nil
  show ?case by simp
next
  case (Cons c cs)
  then obtain xs where xs: "slice_items Clause_item cs = Inr xs"
      "decode_elems Clause_DecodeRLP xs = Inr cs"
    by auto
  obtain x where x: "Clause_item c = Inr x" "Clause_DecodeRLP x = Inr c"
    using Cons.prems Clause_round_trip [of c] by auto
  have "slice_items Clause_item (c # cs) = Inr (x # xs)"
    "decode_elems Clause_DecodeRLP (x # xs) = Inr (c # cs)"
    using x xs by simp_all
  then show ?case by blast
qed

lemma decode_elems_interface: "decode_elems decode_interface xs = Inr xs"
  by (induction xs) (simp_all add: decode_interface_def)

lemma body_round_trip:
  assumes "valid_Transaction t"
  shows "\<exists>x. body_item (body t) = Inr x \<and> decode_body x = Inr (body t)
           \<and> (\<exists>xs. x = Lst xs \<and> xs \<noteq> [])"
proof -
  let ?b = "body t"
  obtain cs where cs: "slice_items Clause_item (Clauses ?b) = Inr cs"
      "decode_elems Clause_DecodeRLP cs = Inr (Clauses ?b)"
    using assms Clauses_round_trip [of "Clauses ?b"] by (auto simp add: valid_Transaction_def)
  have dd: "decode_nil_array 32 (array_ptr_item (DependsOn ?b)) = Inr (DependsOn ?b)"
    using assms by (intro decode_nil_array_item) (simp_all add: valid_Transaction_def)
  let ?xs = "[uint_item (unat (ChainTag ?b)), uint_item (unat (BlockRef ?b)),
              uint_item (unat (Expiration ?b)), Lst cs,
              uint_item (unat (GasPriceCoef ?b)), uint_item (unat (Gas ?b)),
              array_ptr_item (DependsOn ?b), uint_item (unat (Nonce ?b)),
              Lst (Reserved ?b), Str (Signature ?b)]"
  have "body_item ?b = Inr (Lst ?xs)"
    by (simp add: body_item_def cs)
  moreover have "decode_body (Lst ?xs) = Inr ?b"
    by (simp add: decode_body_def field_def list_end_def decode_uint_word dd cs
        decode_slice_def decode_elems_interface decode_bytes_def)
  ultimately show ?thesis by blast
qed

subsection \<open>The transaction codec\<close>

lemma stream_Kind_ok:
  "read_value sc s = Inr (k, c, rest) \<Longrightarrow> \<exists>r. stream_Kind sc s = Inr r"
  by (auto simp add: read_value_def stream_Kind_def split: sum.splits)

lemma stream_Kind_truncated:
  assumes "length p < 2 ^ 64" and "length q < length p"
  shows "stream_Kind Limited (puthead 0xC0 0xF7 (length p) @ q) = Inl ErrValueTooLarge"
    and "\<exists>r. stream_Kind Unlimited (puthead 0xC0 0xF7 (length p) @ q) = Inr r"
proof -
  let ?s = "puthead 0xC0 0xF7 (length p) @ q"
  have v: "\<And>sc. read_value sc ?s = Inl (too_large sc)"
    using assms by (rule read_value_list_truncated)
  show "stream_Kind Limited ?s = Inl ErrValueTooLarge"
    using v [of Limited]
    by (auto simp add: read_value_def stream_Kind_def too_large_def
        split: sum.splits if_splits)
  show "\<exists>r. stream_Kind Unlimited ?s = Inr r"
    using assms(1) by (simp add: stream_Kind_def read_header_puthead_list sized_def)
qed

lemma Transaction_DecodeRLP_ok:
  assumes "read_value sc s = Inr (k, c, rest)" and "item_of_content k c = Inr x"
    and "decode_body x = Inr (body t)"
  shows "Transaction_DecodeRLP sc s = Inr (t, rest)"
proof -
  obtain r where "stream_Kind sc s = Inr r"
    using stream_Kind_ok [OF assms(1)] by blast
  moreover have "stream_Decode decode_body sc s = Inr (body t, rest)"
    using assms by (simp add: stream_Decode_def)
  ultimately show ?thesis by (simp add: Transaction_DecodeRLP_def)
qed

lemma Transaction_EncodeRLP_item:
  assumes "valid_Transaction t"
  shows "\<exists>xs. xs \<noteq> [] \<and> Transaction_EncodeRLP t = Inr (encode_item (Lst xs))
            \<and> decode_body (Lst xs) = Inr (body t)"
  using body_round_trip [OF assms]
  by (auto simp add: Transaction_EncodeRLP_def rlp_Encode_def)

text \<open>
  C3. For every valid transaction \<open>t\<close> the encoding succeeds, and, when the encoding is
  shorter than \<open>2^64\<close> bytes (the sizes the format can frame), decoding it gives \<open>t\<close>
  back, every field equal: the clauses in their order, an absent or present recipient and
  dependency, an empty or non-empty reserved list, whatever bytes follow the value in the
  stream.
\<close>

theorem Transaction_round_trip:
  assumes "valid_Transaction t"
  shows "\<exists>b. Transaction_EncodeRLP t = Inr b
           \<and> (length b < 2 ^ 64 \<longrightarrow>
                  DecodeBytes b = Inr t
                \<and> (\<forall>sc rest. Transaction_DecodeRLP sc (b @ rest) = Inr (t, rest)))"
proof -
  obtain xs where xs: "Transaction_EncodeRLP t = Inr (encode_item (Lst xs))"
      "decode_body (Lst xs) = Inr (body t)"
    using Transaction_EncodeRLP_item [OF assms] by blast
  let ?b = "encode_item (Lst xs)"
  have "length ?b < 2 ^ 64 \<longrightarrow>
          DecodeBytes ?b = Inr t
        \<and> (\<forall>sc rest. Transaction_DecodeRLP sc (?b @ rest) = Inr (t, rest))"
  proof
    assume l: "length ?b < 2 ^ 64"
    have d: "\<And>sc rest. Transaction_DecodeRLP sc (?b @ rest) = Inr (t, rest)"
    proof -
      fix sc rest
      obtain k c where "read_value sc (?b @ rest) = Inr (k, c, rest)"
          "item_of_content k c = Inr (Lst xs)"
        using read_encoded_item [OF l, of sc rest] by blast
      then show "Transaction_DecodeRLP sc (?b @ rest) = Inr (t, rest)"
        using xs(2) by (rule Transaction_DecodeRLP_ok)
    qed
    have "DecodeBytes ?b = Inr t"
      using d [of Limited "[]"] by (simp add: DecodeBytes_def)
    with d show "DecodeBytes ?b = Inr t
        \<and> (\<forall>sc rest. Transaction_DecodeRLP sc (?b @ rest) = Inr (t, rest))"
      by blast
  qed
  with xs(1) show ?thesis by blast
qed

text \<open>
  C9. For every valid transaction, its encoding without the final byte is rejected: the
  header announces more bytes than remain, and the decoder returns the error of an input
  that is too short for its value (\<open>ErrValueTooLarge\<close> on an input of known length,
  \<open>io.ErrUnexpectedEOF\<close> on a reader), never a transaction.
\<close>

theorem Transaction_truncated:
  assumes "valid_Transaction t"
  shows "\<exists>b. Transaction_EncodeRLP t = Inr b \<and> b \<noteq> []
           \<and> (length b < 2 ^ 64 \<longrightarrow>
                  DecodeBytes (butlast b) = Inl ErrValueTooLarge
                \<and> Transaction_DecodeRLP Limited (butlast b) = Inl ErrValueTooLarge
                \<and> Transaction_DecodeRLP Unlimited (butlast b) = Inl ErrUnexpectedEOF)"
proof -
  obtain xs where xs: "xs \<noteq> []" "Transaction_EncodeRLP t = Inr (encode_item (Lst xs))"
    using Transaction_EncodeRLP_item [OF assms] by blast
  let ?p = "concat (map encode_item xs)"
  let ?h = "puthead 0xC0 0xF7 (length ?p)"
  let ?b = "encode_item (Lst xs)"
  have b: "?b = ?h @ ?p" by (simp add: Let_def)
  have p: "?p \<noteq> []" using xs(1) encode_item_not_Nil by (cases xs) auto
  have bl: "butlast ?b = ?h @ butlast ?p"
    unfolding b using p by (simp only: butlast_append if_False)
  have q: "length (butlast ?p) < length ?p" using p by simp
  have "length ?b < 2 ^ 64 \<longrightarrow>
          DecodeBytes (butlast ?b) = Inl ErrValueTooLarge
        \<and> Transaction_DecodeRLP Limited (butlast ?b) = Inl ErrValueTooLarge
        \<and> Transaction_DecodeRLP Unlimited (butlast ?b) = Inl ErrUnexpectedEOF"
  proof
    assume "length ?b < 2 ^ 64"
    then have lp: "length ?p < 2 ^ 64" using length_payload_le [of xs] by simp
    have 1: "Transaction_DecodeRLP Limited (butlast ?b) = Inl ErrValueTooLarge"
      unfolding bl using stream_Kind_truncated(1) [OF lp q]
      by (simp add: Transaction_DecodeRLP_def)
    obtain r where r: "stream_Kind Unlimited (?h @ butlast ?p) = Inr r"
      using stream_Kind_truncated(2) [OF lp q] by blast
    have "read_value Unlimited (?h @ butlast ?p) = Inl (too_large Unlimited)"
      using lp q by (rule read_value_list_truncated)
    then have "stream_Decode decode_body Unlimited (?h @ butlast ?p) = Inl ErrUnexpectedEOF"
      by (simp add: stream_Decode_def too_large_def)
    then have 2: "Transaction_DecodeRLP Unlimited (butlast ?b) = Inl ErrUnexpectedEOF"
      unfolding bl using r by (simp add: Transaction_DecodeRLP_def)
    have 3: "DecodeBytes (butlast ?b) = Inl ErrValueTooLarge"
      using 1 by (simp add: DecodeBytes_def)
    show "DecodeBytes (butlast ?b) = Inl ErrValueTooLarge
        \<and> Transaction_DecodeRLP Limited (butlast ?b) = Inl ErrValueTooLarge
        \<and> Transaction_DecodeRLP Unlimited (butlast ?b) = Inl ErrUnexpectedEOF"
      using 1 2 3 by blast
  qed
  moreover have "?b \<noteq> []" by (rule encode_item_not_Nil)
  ultimately show ?thesis using xs(2) by blast
qed

lemma tx1_valid: "valid_Transaction tx1"
  by (simp add: valid_Transaction_def valid_Clause_def tx1_def)

lemma tx1_encoded: "Transaction_EncodeRLP tx1 = Inr tx1_bytes"
  by code_simp

theorem Transaction_round_trip_witness:
  "valid_Transaction tx1 \<and> Transaction_EncodeRLP tx1 = Inr tx1_bytes
 \<and> DecodeBytes tx1_bytes = Inr tx1"
proof -
  have l: "length tx1_bytes < 2 ^ 64" by (simp add: tx1_bytes_def)
  obtain b where b: "Transaction_EncodeRLP tx1 = Inr b"
      "length b < 2 ^ 64 \<longrightarrow> DecodeBytes b = Inr tx1"
    using Transaction_round_trip [OF tx1_valid] by blast
  have "b = tx1_bytes" using b(1) tx1_encoded by simp
  then show ?thesis using b(2) l tx1_valid tx1_encoded by simp
qed

theorem Transaction_truncated_witness:
  "valid_Transaction tx1 \<and> Transaction_EncodeRLP tx1 = Inr tx1_bytes
 \<and> DecodeBytes (butlast tx1_bytes) = Inl ErrValueTooLarge"
proof -
  have l: "length tx1_bytes < 2 ^ 64" by (simp add: tx1_bytes_def)
  obtain b where b: "Transaction_EncodeRLP tx1 = Inr b"
      "length b < 2 ^ 64 \<longrightarrow> DecodeBytes (butlast b) = Inl ErrValueTooLarge"
    using Transaction_truncated [OF tx1_valid] by blast
  have "b = tx1_bytes" using b(1) tx1_encoded by simp
  then show ?thesis using b(2) l tx1_valid tx1_encoded by simp
qed

subsection \<open>Signing hash, signer, identifier\<close>

lemma signing_item_WithSignature:
  "signing_item (body (WithSignature t sig)) = signing_item (body t)"
  by (simp add: signing_item_def WithSignature_def split: sum.splits)

lemma body_item_signing_item:
  "body_item b = Inr (Lst xs) \<Longrightarrow>
     signing_item b = Inr (Lst (butlast xs)) \<and> length xs = 10 \<and> last xs = Str (Signature b)"
  by (auto simp add: body_item_def signing_item_def split: sum.splits)

text \<open>
  C2. \<open>SigningHash (WithSignature t sig) = SigningHash t\<close> for every transaction and every
  signature. The hashed bytes are the encoding of the list of the nine values chain tag,
  block reference, expiration, clauses, gas price coefficient, gas, dependency, nonce and
  reserved, in this order: the ten fields that \<open>EncodeRLP\<close> writes, without the last one,
  which is the signature.
\<close>

theorem SigningHash_excludes_signature:
  "SigningHash cr (WithSignature t sig) = SigningHash cr t
 \<and> (\<forall>xs. body_item (body t) = Inr (Lst xs) \<longrightarrow>
        length xs = 10 \<and> last xs = Str (Signature (body t))
      \<and> SigningHash cr t = Blake2b cr (encode_item (Lst (butlast xs))))
 \<and> (\<forall>cs. slice_items Clause_item (Clauses (body t)) = Inr cs \<longrightarrow>
        SigningHash cr t =
          Blake2b cr (encode_item (Lst
            [uint_item (unat (ChainTag (body t))),
             uint_item (unat (BlockRef (body t))),
             uint_item (unat (Expiration (body t))),
             Lst cs,
             uint_item (unat (GasPriceCoef (body t))),
             uint_item (unat (Gas (body t))),
             array_ptr_item (DependsOn (body t)),
             uint_item (unat (Nonce (body t))),
             Lst (Reserved (body t))])))
 \<and> (valid_Transaction t \<longrightarrow> (\<exists>xs. body_item (body t) = Inr (Lst xs)))"
proof -
  have 1: "SigningHash cr (WithSignature t sig) = SigningHash cr t"
    by (simp add: SigningHash_def signing_item_WithSignature)
  have 2: "\<forall>xs. body_item (body t) = Inr (Lst xs) \<longrightarrow>
        length xs = 10 \<and> last xs = Str (Signature (body t))
      \<and> SigningHash cr t = Blake2b cr (encode_item (Lst (butlast xs)))"
    using body_item_signing_item [of "body t"]
    by (simp add: SigningHash_def rlp_Encode_def)
  have 3: "\<forall>cs. slice_items Clause_item (Clauses (body t)) = Inr cs \<longrightarrow>
        SigningHash cr t =
          Blake2b cr (encode_item (Lst
            [uint_item (unat (ChainTag (body t))),
             uint_item (unat (BlockRef (body t))),
             uint_item (unat (Expiration (body t))),
             Lst cs,
             uint_item (unat (GasPriceCoef (body t))),
             uint_item (unat (Gas (body t))),
             array_ptr_item (DependsOn (body t)),
             uint_item (unat (Nonce (body t))),
             Lst (Reserved (body t))]))"
    by (simp add: SigningHash_def rlp_Encode_def signing_item_def)
  have 4: "valid_Transaction t \<longrightarrow> (\<exists>xs. body_item (body t) = Inr (Lst xs))"
    using body_round_trip [of t] by blast
  show ?thesis using 1 2 3 4 by blast
qed

theorem SigningHash_excludes_signature_witness:
  "SigningHash toy_crypto (WithSignature tx1 [1, 2, 3]) = SigningHash toy_crypto tx1
 \<and> (\<exists>xs. body_item (body tx1) = Inr (Lst xs) \<and> length xs = 10
        \<and> last xs = Str (replicate 65 0xAB)
        \<and> SigningHash toy_crypto tx1 = Blake2b toy_crypto (encode_item (Lst (butlast xs))))"
proof -
  note h = SigningHash_excludes_signature [of toy_crypto tx1 "[1, 2, 3]"]
  obtain xs where xs: "body_item (body tx1) = Inr (Lst xs)"
    using h tx1_valid by blast
  have "Signature (body tx1) = replicate 65 0xAB" by (simp add: tx1_def)
  then show ?thesis using h xs by metis
qed

text \<open>
  C1 (as amended). For every transaction with an empty signature, \<open>ID\<close> is the digest of
  the signing hash followed by the 20 zero bytes of the zero address, which is the signer
  that \<open>Signer\<close> reports for it; for every transaction with a signature from which a
  public key recovers, \<open>ID\<close> is the digest of the signing hash followed by the address of
  that key.
\<close>

theorem ID_digest:
  "(Signature (body t) = [] \<longrightarrow>
      ID cr t = Blake2b cr (SigningHash cr t @ replicate 20 0))
 \<and> (\<forall>pub. Signature (body t) \<noteq> []
         \<and> SigToPub cr (SigningHash cr t) (Signature (body t)) = Inr pub \<longrightarrow>
       Signer cr t = (PubkeyToAddress cr pub, None)
     \<and> ID cr t = Blake2b cr (SigningHash cr t @ PubkeyToAddress cr pub))"
  by (simp add: ID_def Signer_def)

theorem ID_digest_witness:
  "ID toy_crypto unsigned_tx =
     Blake2b toy_crypto (SigningHash toy_crypto unsigned_tx @ replicate 20 0)
 \<and> ID toy_crypto tx1 = Blake2b toy_crypto (SigningHash toy_crypto tx1 @ replicate 20 0xAB)"
proof -
  have u: "Signature (body unsigned_tx) = []" by (simp add: unsigned_tx_def)
  have s: "Signature (body tx1) \<noteq> []" by (simp add: tx1_def)
  have r: "SigToPub toy_crypto (SigningHash toy_crypto tx1) (Signature (body tx1))
             = Inr (replicate 64 0xAB)"
    by (simp add: toy_crypto_def tx1_def)
  have a: "PubkeyToAddress toy_crypto (replicate 64 0xAB) = replicate 20 0xAB"
    by (simp add: toy_crypto_def)
  show ?thesis
    using ID_digest [of unsigned_tx toy_crypto] ID_digest [of tx1 toy_crypto] u s r a by simp
qed

text \<open>
  C1 as stated fails on an unsigned transaction: \<open>Signer\<close> returns the zero address and
  no error, so \<open>ID\<close> goes on to the digest, and the result is all-zero only if the digest
  is. With a digest that is not, the identifier of \<open>unsigned_tx\<close> is not the zero value.
\<close>

theorem ID_unsigned_counterexample:
  "Signature (body unsigned_tx) = [] \<and> ID toy_crypto unsigned_tx \<noteq> replicate 32 0"
proof -
  have "last (ID toy_crypto unsigned_tx) \<noteq> 0"
    by (simp add: ID_def Signer_def unsigned_tx_def toy_crypto_def SigningHash_def
        split: sum.splits)
  moreover have "last (replicate 32 (0 :: byte)) = 0" by simp
  ultimately have "ID toy_crypto unsigned_tx \<noteq> replicate 32 0" by metis
  then show ?thesis by (simp add: unsigned_tx_def)
qed

text \<open>
  C4 (as amended). For every transaction whose signature is present and from which no
  public key recovers, \<open>Signer\<close> returns the error of the recovery, with the zero address,
  and this differs from what it returns for any transaction without a signature (no
  error); \<open>ID\<close>, which has no error result, returns the all-zero value.
\<close>

theorem Signer_failure_reported:
  "(\<forall>err. Signature (body t) \<noteq> []
         \<and> SigToPub cr (SigningHash cr t) (Signature (body t)) = Inl err \<longrightarrow>
       Signer cr t = (replicate 20 0, Some err)
     \<and> ID cr t = replicate 32 0
     \<and> (\<forall>u. Signature (body u) = [] \<longrightarrow> Signer cr u \<noteq> Signer cr t))"
  by (simp add: ID_def Signer_def)

theorem Signer_failure_reported_witness:
  "Signer toy_crypto bad_sig_tx = (replicate 20 0, Some InvalidSignatureLen)
 \<and> Signer toy_crypto unsigned_tx \<noteq> Signer toy_crypto bad_sig_tx"
proof -
  have s: "Signature (body bad_sig_tx) \<noteq> []" by (simp add: bad_sig_tx_def)
  have r: "SigToPub toy_crypto (SigningHash toy_crypto bad_sig_tx) (Signature (body bad_sig_tx))
             = Inl InvalidSignatureLen"
    by (simp add: toy_crypto_def bad_sig_tx_def)
  have u: "Signature (body unsigned_tx) = []" by (simp add: unsigned_tx_def)
  show ?thesis
    using Signer_failure_reported [of bad_sig_tx toy_crypto] s r u by blast
qed

text \<open>
  C4 as stated fails for \<open>ID\<close>: on a transaction with a one-byte signature, from which
  nothing recovers, \<open>Signer\<close> has an error and \<open>ID\<close> returns the zero value in its place.
\<close>

theorem ID_failure_counterexample:
  "Signature (body bad_sig_tx) \<noteq> []
 \<and> snd (Signer toy_crypto bad_sig_tx) = Some InvalidSignatureLen
 \<and> ID toy_crypto bad_sig_tx = replicate 32 0"
  by (simp add: ID_def Signer_def bad_sig_tx_def toy_crypto_def)

text \<open>
  C10. For every transaction with an empty signature, \<open>Signer\<close> returns the all-zero
  address and no error; a transaction whose signature recovers to a key with the zero
  address gets the same pair, so the two results of \<open>Signer\<close> do not tell them apart.
\<close>

theorem Signer_unsigned_zero_address:
  "(Signature (body t) = [] \<longrightarrow> Signer cr t = (replicate 20 0, None))
 \<and> (\<forall>u pub. Signature (body t) = [] \<and> Signature (body u) \<noteq> []
         \<and> SigToPub cr (SigningHash cr u) (Signature (body u)) = Inr pub
         \<and> PubkeyToAddress cr pub = replicate 20 0 \<longrightarrow>
       Signer cr u = Signer cr t)"
  by (simp add: Signer_def)

theorem Signer_unsigned_zero_address_witness:
  "Signer toy_crypto unsigned_tx = (replicate 20 0, None)
 \<and> Signer toy_crypto zero_signer_tx = Signer toy_crypto unsigned_tx"
proof -
  have u: "Signature (body unsigned_tx) = []" by (simp add: unsigned_tx_def)
  have s: "Signature (body zero_signer_tx) \<noteq> []" by (simp add: zero_signer_tx_def)
  have r: "SigToPub toy_crypto (SigningHash toy_crypto zero_signer_tx)
             (Signature (body zero_signer_tx)) = Inr (replicate 64 0)"
    by (simp add: toy_crypto_def zero_signer_tx_def)
  have a: "PubkeyToAddress toy_crypto (replicate 64 0) = replicate 20 0"
    by (simp add: toy_crypto_def)
  show ?thesis
    using Signer_unsigned_zero_address [of unsigned_tx toy_crypto] u s r a by blast
qed

end
